theory Spec2Isabelle
  imports Main
begin

section \<open>Python helpers used by both scripts\<close>

text \<open>
  The exceptions that the two scripts can raise from their own statements. A raise
  aborts the process, so every fallible function returns \<open>error + 'a\<close>, with
  \<open>Inl\<close> the exception.
\<close>

datatype error =
    KeyError string
  | IndexError
  | ZeroDivisionError
  | ValueError

text \<open>\<open>str(n)\<close> for a Python integer: decimal digits, with a minus sign below zero.\<close>

fun digits :: "nat \<Rightarrow> string" where
  "digits n =
     (if n < 10 then [''0123456789'' ! n]
      else digits (n div 10) @ [''0123456789'' ! (n mod 10)])"

declare digits.simps [simp del]

definition str :: "int \<Rightarrow> string" where
  "str n = (if n < 0 then ''-'' @ digits (nat (- n)) else digits (nat n))"

text \<open>
  \<open>os.path.join(a, b)\<close> on a POSIX system: an absolute second component replaces the
  first, otherwise the two are joined by exactly one slash.
\<close>

definition join :: "string \<Rightarrow> string \<Rightarrow> string" where
  "join a b =
     (if b \<noteq> [] \<and> hd b = CHR ''/'' then b
      else if a = [] \<or> last a = CHR ''/'' then a @ b
      else a @ ''/'' @ b)"

text \<open>\<open>" ".join(words)\<close>.\<close>

fun join_spaces :: "string list \<Rightarrow> string" where
  "join_spaces [] = []"
| "join_spaces [w] = w"
| "join_spaces (w # ws) = w @ '' '' @ join_spaces ws"

section \<open>The Dispatcher: \<open>generation_script.py\<close>\<close>

record dispatcher_args =
  rollouts :: int
  threads :: int
  rootdir :: string
  policy :: string

text \<open>
  What one call of \<open>_threaded_generation\<close> does to the world: the directory it makes
  (\<open>makedirs(tdir, exist_ok=True)\<close>), the line it prints, the list it hands to
  \<open>subprocess.call\<close>, and the value it returns. The list is handed over with
  \<open>shell=True\<close>; what the shell and the programs it starts then do is outside the
  script and is not modelled.
\<close>

record task_effect =
  made_dir :: string
  printed :: string
  called :: "string list"
  returned :: bool

definition python_cmd :: "dispatcher_args \<Rightarrow> string list" where
  "python_cmd args =
     [''bazel'', ''run'', ''-c'', ''opt'', ''random_agent'', ''--'',
      ''--level_name=chase_eat'', ''--num_episodes='' @ str (rollouts args)]"

definition threaded_generation :: "dispatcher_args \<Rightarrow> int \<Rightarrow> int \<Rightarrow> task_effect" where
  "threaded_generation args rpt i =
     (let tdir = join (rootdir args) (''thread_'' @ str i)
      in \<lparr>made_dir = tdir,
          printed = join_spaces (python_cmd args),
          called = python_cmd args,
          returned = True\<rparr>)"

text \<open>
  The \<open>__main__\<close> block. \<open>rollouts // threads\<close> raises on a zero divisor; Python's
  \<open>//\<close> rounds towards minus infinity, as \<open>div\<close> on \<open>int\<close> does.
  \<open>multiprocessing.Pool(n)\<close> raises \<open>ValueError\<close> for \<open>n < 1\<close>. The tasks of
  \<open>starmap\<close> run in separate processes; each task's effect is returned on its own, in
  the order of the task list \<open>range(threads)\<close>.
\<close>

definition quota :: "dispatcher_args \<Rightarrow> error + int" where
  "quota args =
     (if threads args = 0 then Inl ZeroDivisionError
      else Inr (rollouts args div threads args + 1))"

definition generation_script_main :: "dispatcher_args \<Rightarrow> error + task_effect list" where
  "generation_script_main args =
     (case quota args of
        Inl e \<Rightarrow> Inl e
      | Inr rpt \<Rightarrow>
          if threads args < 1 then Inl ValueError
          else Inr (map (\<lambda>i. threaded_generation args rpt (int i)) [0..<nat (threads args)]))"

section \<open>The Collector: \<open>random_agent.py\<close>\<close>

subsection \<open>Data of the external environment library\<close>

text \<open>
  The simulation (\<open>dmlab2d\<close>), the random source (\<open>numpy.random.RandomState\<close>) and the
  array and file routines are external. Their data is modelled as the script reads it;
  their functions are parameters, collected in the record \<open>library\<close> below. The type
  variables stand for the environment's internal state \<open>'e\<close>, the state of the random
  source \<open>'r\<close>, an observation frame \<open>'o\<close> and a float64 \<open>'f\<close>.
\<close>

datatype json =
    JNull
  | JBool bool
  | JNumber string
  | JString string
  | JArray "json list"
  | JObject "(string \<times> json) list"

text \<open>A sampled value: \<open>randint\<close> returns an integer, \<open>uniform\<close> a float64.\<close>

datatype 'f scalar = IntVal int | FloatVal 'f

text \<open>
  One entry of the action spec. The script reads \<open>spec.dtype\<close>, \<open>spec.minimum\<close> and
  \<open>spec.maximum\<close>; the dtype fixes the type of the two bounds, so the three fields are
  one tagged value. \<open>OtherSpec\<close> carries the name of any other dtype.
\<close>

datatype 'f spec =
    Int32Spec int int
  | Float64Spec 'f 'f
  | OtherSpec string

datatype step_type = FIRST | MID | LAST

record ('o, 'f) timestep =
  step_type :: step_type
  reward :: "'f option"
  discount :: "'f option"
  observation :: "string \<rightharpoonup> 'o"

text \<open>\<open>timestep.last()\<close>.\<close>

definition timestep_last :: "('o, 'f) timestep \<Rightarrow> bool" where
  "timestep_last ts = (step_type ts = LAST)"

text \<open>
  \<open>Environment\<close> stands for the two constructor calls of \<open>_create_environment\<close>,
  \<open>dmlab2d.Lab2d(runfiles_helper.find(), settings)\<close> and
  \<open>dmlab2d.Environment(lab2d, names, seed)\<close>. \<open>env_reset\<close> and \<open>env_step\<close> return the
  timestep and the environment's next state; \<open>randint\<close> and \<open>uniform\<close> return the
  value drawn and the next state of the random source. \<open>randint(low, high)\<close> raises
  \<open>ValueError\<close> when the range is empty, which is the result \<open>None\<close>; the other
  calls are taken to return.
\<close>

record ('e, 'r, 'o, 'f) library =
  Environment :: "(string \<rightharpoonup> json) \<Rightarrow> string list \<Rightarrow> int \<Rightarrow> 'e"
  env_action_spec :: "'e \<Rightarrow> (string \<times> 'f spec) list"
  env_reset :: "'e \<Rightarrow> ('o, 'f) timestep \<times> 'e"
  env_step :: "'e \<Rightarrow> (string \<rightharpoonup> 'f scalar) \<Rightarrow> ('o, 'f) timestep \<times> 'e"
  RandomState :: "int \<Rightarrow> 'r"
  randint :: "'r \<Rightarrow> int \<Rightarrow> int \<Rightarrow> (int \<times> 'r) option"
  uniform :: "'r \<Rightarrow> 'f \<Rightarrow> 'f \<Rightarrow> 'f \<times> 'r"

subsection \<open>The random agent\<close>

text \<open>
  The bounds of an int32 channel are int32 values of the library, held here as
  integers between \<open>-2^31\<close> and \<open>2^31 - 1\<close>. Arithmetic on them stays in int32:
  \<open>int32\<close> is the wrap-around of a result into that range, so that
  \<open>maximum + 1\<close> at the largest int32 is the smallest one.
\<close>

definition int32 :: "int \<Rightarrow> int" where
  "int32 n = (n + 2147483648) mod 4294967296 - 2147483648"

text \<open>
  \<open>_make_int32_distribution\<close> and \<open>_make_float64_distribution\<close> return closures over
  the random source. The source is one mutable object shared by all closures, so a
  closure is a function from the state of that object to the value drawn and the
  state after the draw; \<open>None\<close> is the \<open>ValueError\<close> of \<open>randint\<close>, the only
  exception a closure raises.
\<close>

type_synonym ('r, 'f) distribution = "'r \<Rightarrow> ('f scalar \<times> 'r) option"

definition make_int32_distribution ::
  "('e, 'r, 'o, 'f) library \<Rightarrow> int \<Rightarrow> int \<Rightarrow> ('r, 'f) distribution" where
  "make_int32_distribution lib minimum maximum =
     (\<lambda>r. case randint lib r minimum (int32 (maximum + 1)) of
            None \<Rightarrow> None
          | Some (v, r') \<Rightarrow> Some (IntVal v, r'))"

definition make_float64_distribution ::
  "('e, 'r, 'o, 'f) library \<Rightarrow> 'f \<Rightarrow> 'f \<Rightarrow> ('r, 'f) distribution" where
  "make_float64_distribution lib minimum maximum =
     (\<lambda>r. let (v, r') = uniform lib r minimum maximum in Some (FloatVal v, r'))"

text \<open>
  The agent object. \<open>self_random\<close> is the state of the \<open>RandomState\<close> that
  \<open>__init__\<close> creates and the closures capture; the other fields are the attributes
  \<open>_observation_name\<close>, \<open>_actions\<close>, \<open>_scores\<close> and \<open>_scale\<close>.
\<close>

record ('r, 'f) PyGameRandomAgent =
  self_observation_name :: string
  self_random :: 'r
  self_actions :: "(string \<times> ('r, 'f) distribution) list"
  self_scores :: "'f list"
  self_scale :: 'f

text \<open>
  Every \<open>print\<close> of the script is one message, holding the values that the script
  formats into the line.
\<close>

datatype 'f message =
    NotSupported "'f spec"
  | EndOfRollout int int
  | FileWillBeSavedTo string
  | AllEpisodesCompleted
  | Scores "'f list"

text \<open>
  The loop of \<open>__init__\<close> over \<open>action_spec.items()\<close>: the samplers appended to
  \<open>_actions\<close>, in order, and the warnings printed.
\<close>

fun channels ::
  "('e, 'r, 'o, 'f) library \<Rightarrow> (string \<times> 'f spec) list \<Rightarrow>
   (string \<times> ('r, 'f) distribution) list \<times> 'f message list" where
  "channels lib [] = ([], [])"
| "channels lib ((name, Int32Spec mn mx) # rest) =
     (let (acts, out) = channels lib rest
      in ((name, make_int32_distribution lib mn mx) # acts, out))"
| "channels lib ((name, Float64Spec mn mx) # rest) =
     (let (acts, out) = channels lib rest
      in ((name, make_float64_distribution lib mn mx) # acts, out))"
| "channels lib ((name, OtherSpec d) # rest) =
     (let (acts, out) = channels lib rest
      in (acts, NotSupported (OtherSpec d) # out))"

text \<open>
  \<open>PyGameRandomAgent.__init__\<close>; the observation spec it receives is never read and is
  left out. The result is the new agent and what the constructor printed.
\<close>

definition init ::
  "('e, 'r, 'o, 'f) library \<Rightarrow> (string \<times> 'f spec) list \<Rightarrow> string \<Rightarrow> int \<Rightarrow> 'f \<Rightarrow>
   ('r, 'f) PyGameRandomAgent \<times> 'f message list" where
  "init lib action_spec observation_name seed scale =
     (let random = RandomState lib seed;
          (acts, out) = channels lib action_spec
      in (\<lparr>self_observation_name = observation_name,
           self_random = random,
           self_actions = acts,
           self_scores = [],
           self_scale = scale\<rparr>, out))"

text \<open>
  The dict comprehension \<open>{name: gen() for name, gen in self._actions}\<close>: the samplers
  are called in list order, each on the state the previous one left, and the first
  one that raises ends the comprehension.
\<close>

fun comprehension ::
  "(string \<times> ('r, 'f) distribution) list \<Rightarrow> 'r \<Rightarrow> (string \<rightharpoonup> 'f scalar) \<Rightarrow>
   ((string \<rightharpoonup> 'f scalar) \<times> 'r) option" where
  "comprehension [] r m = Some (m, r)"
| "comprehension ((name, gen) # rest) r m =
     (case gen r of
        None \<Rightarrow> None
      | Some (v, r') \<Rightarrow> comprehension rest r' (m(name \<mapsto> v)))"

text \<open>
  The score bookkeeping of \<open>step\<close>. \<open>self._scores[-1]\<close> raises \<open>IndexError\<close> on an
  empty list.
\<close>

definition update_scores :: "'f::{zero,plus} list \<Rightarrow> 'f option \<Rightarrow> error + 'f list" where
  "update_scores sc rw =
     (case rw of
        Some x \<Rightarrow>
          if x \<noteq> 0 then
            (if sc = [] then Inl IndexError else Inr (butlast sc @ [last sc + x]))
          else Inr sc
      | None \<Rightarrow> Inr (sc @ [0]))"

definition step ::
  "('r, 'f::{zero,plus}) PyGameRandomAgent \<Rightarrow> ('o, 'f) timestep \<Rightarrow>
   error + (string \<rightharpoonup> 'f scalar) \<times> ('r, 'f) PyGameRandomAgent" where
  "step self ts =
     (case update_scores (self_scores self) (reward ts) of
        Inl e \<Rightarrow> Inl e
      | Inr sc \<Rightarrow>
          (case comprehension (self_actions self) (self_random self) Map.empty of
             None \<Rightarrow> Inl ValueError
           | Some (action, r) \<Rightarrow> Inr (action, self\<lparr>self_scores := sc, self_random := r\<rparr>)))"

definition print_stats :: "('r, 'f) PyGameRandomAgent \<Rightarrow> 'f message" where
  "print_stats self = Scores (self_scores self)"

subsection \<open>The episode loop\<close>

text \<open>The namespace that \<open>main\<close> parses from the command line.\<close>

record 'f args =
  level_name :: string
  observation :: string
  settings :: "string \<rightharpoonup> json"
  env_seed :: int
  agent_seed :: int
  num_episodes :: int
  scale :: 'f

text \<open>The defaults of the seven \<open>add_argument\<close> calls; \<open>one\<close> is the float 1.\<close>

definition default_args :: "'f \<Rightarrow> 'f args" where
  "default_args one =
     \<lparr>level_name = ''clean_up'', observation = ''WORLD.RGB'', settings = Map.empty,
      env_seed = 0, agent_seed = 0, num_episodes = 1, scale = one\<rparr>"

text \<open>
  \<open>_create_environment\<close>: the level name is stored in the settings under
  \<open>'levelName'\<close>, and the environment is created with the one observation channel
  named by \<open>args.observation\<close>.
\<close>

definition create_environment :: "('e, 'r, 'o, 'f) library \<Rightarrow> 'f args \<Rightarrow> 'e" where
  "create_environment lib args =
     Environment lib ((settings args)(''levelName'' \<mapsto> JString (level_name args)))
       [args.observation args] (env_seed args)"

text \<open>The five named arrays that \<open>np.savez\<close> writes.\<close>

record ('o, 'f) archive =
  observations :: "'o list"
  rewards :: "'f option list"
  discounts :: "'f option list"
  actions :: "'f scalar list"
  terminals :: "step_type list"

text \<open>
  What lives across episodes: the environment, the agent, and the effects on the
  outside world in the order they happen (directories made, files written, lines
  printed).
\<close>

record ('e, 'r, 'o, 'f) world =
  env :: 'e
  agent :: "('r, 'f) PyGameRandomAgent"
  dirs :: "string list"
  files :: "(string \<times> ('o, 'f) archive) list"
  stdout :: "'f message list"

text \<open>
  Inside the \<open>for\<close> body the local variables are added: the current timestep and the
  five lists of the episode buffer. \<open>t_rollout\<close> holds the step type whose \<open>.value\<close>
  the script stores.
\<close>

record ('e, 'r, 'o, 'f) state = "('e, 'r, 'o, 'f) world" +
  timestep :: "('o, 'f) timestep"
  s_rollout :: "'o list"
  r_rollout :: "'f option list"
  d_rollout :: "'f option list"
  a_rollout :: "'f scalar list"
  t_rollout :: "step_type list"

text \<open>The directory of lines 158, 159 and 165, keyed by the environment seed.\<close>

definition thread_dir :: "'f args \<Rightarrow> string" where
  "thread_dir args =
     ''/Users/qingshi/docs/Projects/sp24/lab2d/chase_eat_may8/thread_'' @ str (env_seed args)"

text \<open>\<open>np.savez\<close> appends \<open>.npz\<close> to a file name that does not end in it.\<close>

definition savez_name :: "string \<Rightarrow> string" where
  "savez_name file =
     (if 4 \<le> length file \<and> drop (length file - 4) file = ''.npz'' then file
      else file @ ''.npz'')"

text \<open>The file that line 159 writes for episode \<open>i\<close>.\<close>

definition rollout_file :: "'f args \<Rightarrow> int \<Rightarrow> string" where
  "rollout_file args i = savez_name (join (thread_dir args) (''rollout_'' @ str i))"

text \<open>
  Lines 132 to 138: sample an action, step the environment, append one entry to each
  of the five lists. A missing dictionary key raises \<open>KeyError\<close>. The result carries
  the local variable \<open>action\<close>, which line 143 reads again.
\<close>

definition record_step ::
  "('e, 'r, 'o, 'f::{zero,plus}) library \<Rightarrow> ('e, 'r, 'o, 'f) state \<Rightarrow>
   error + (string \<rightharpoonup> 'f scalar) \<times> ('e, 'r, 'o, 'f) state" where
  "record_step lib st =
     (case step (agent st) (timestep st) of
        Inl e \<Rightarrow> Inl e
      | Inr (action, ag) \<Rightarrow>
          let (ts, e) = env_step lib (env st) action
          in (case timestep.observation ts ''WORLD.RGB'' of
                None \<Rightarrow> Inl (KeyError ''WORLD.RGB'')
              | Some frame \<Rightarrow>
                  (case action ''MOVE'' of
                     None \<Rightarrow> Inl (KeyError ''MOVE'')
                   | Some mv \<Rightarrow>
                       Inr (action,
                            st\<lparr>agent := ag, env := e, timestep := ts,
                               s_rollout := s_rollout st @ [frame],
                               r_rollout := r_rollout st @ [reward ts],
                               d_rollout := d_rollout st @ [discount ts],
                               a_rollout := a_rollout st @ [mv],
                               t_rollout := t_rollout st @ [step_type ts]\<rparr>))))"

text \<open>
  Lines 142 to 167, the body of \<open>if timestep.last()\<close>. The agent is stepped once more
  and the action it returns is dropped; \<open>action["MOVE"]\<close> of the action already applied
  is appended again. The result is the new value of \<open>enough_data\<close> and the state.
\<close>

definition terminal_step ::
  "('e, 'r, 'o, 'f::{zero,plus}) library \<Rightarrow> 'f args \<Rightarrow> int \<Rightarrow> (string \<rightharpoonup> 'f scalar) \<Rightarrow>
   ('e, 'r, 'o, 'f) state \<Rightarrow> error + bool \<times> ('e, 'r, 'o, 'f) state" where
  "terminal_step lib args i action st =
     (case step (agent st) (timestep st) of
        Inl e \<Rightarrow> Inl e
      | Inr (unused, ag) \<Rightarrow>
          (case action ''MOVE'' of
             None \<Rightarrow> Inl (KeyError ''MOVE'')
           | Some mv \<Rightarrow>
               let a = a_rollout st @ [mv]
               in if length a \<le> 1000 then
                    let (ts, e) = env_reset lib (env st)
                    in Inr (False,
                            st\<lparr>agent := ag, env := e, timestep := ts,
                               s_rollout := [], r_rollout := [], d_rollout := [],
                               a_rollout := [], t_rollout := []\<rparr>)
                  else
                    Inr (True,
                         st\<lparr>agent := ag, a_rollout := a,
                            dirs := dirs st @ [thread_dir args],
                            files := files st @
                              [(rollout_file args i,
                                \<lparr>observations = s_rollout st,
                                 rewards = r_rollout st,
                                 discounts = d_rollout st,
                                 actions = a,
                                 terminals = t_rollout st\<rparr>)],
                            stdout := stdout st @
                              [EndOfRollout i (num_episodes args),
                               FileWillBeSavedTo
                                 (join (thread_dir args) (''rollout_'' @ str i @ ''.npz''))]\<rparr>)))"

text \<open>One pass through the body of \<open>while not enough_data\<close>.\<close>

definition loop_body ::
  "('e, 'r, 'o, 'f::{zero,plus}) library \<Rightarrow> 'f args \<Rightarrow> int \<Rightarrow> ('e, 'r, 'o, 'f) state \<Rightarrow>
   error + bool \<times> ('e, 'r, 'o, 'f) state" where
  "loop_body lib args i st =
     (case record_step lib st of
        Inl e \<Rightarrow> Inl e
      | Inr (action, st1) \<Rightarrow>
          if timestep_last (timestep st1) then terminal_step lib args i action st1
          else Inr (False, st1))"

text \<open>
  The \<open>while\<close> loop need not end: an environment may never reach a terminal step, or
  only ever produce short episodes. The loop is run for at most \<open>fuel\<close> passes, and
  \<open>None\<close> means that the fuel ran out before \<open>enough_data\<close> was set.
\<close>

fun while_not_enough_data ::
  "('e, 'r, 'o, 'f::{zero,plus}) library \<Rightarrow> 'f args \<Rightarrow> int \<Rightarrow> nat \<Rightarrow> ('e, 'r, 'o, 'f) state \<Rightarrow>
   (error + ('e, 'r, 'o, 'f) state) option" where
  "while_not_enough_data lib args i 0 st = None"
| "while_not_enough_data lib args i (Suc fuel) st =
     (case loop_body lib args i st of
        Inl e \<Rightarrow> Some (Inl e)
      | Inr (enough_data, st') \<Rightarrow>
          if enough_data then Some (Inr st')
          else while_not_enough_data lib args i fuel st')"

text \<open>
  Lines 122 to 128, the start of the body of \<open>for i in range(args.num_episodes)\<close>:
  reset the environment and bind the five empty lists.
\<close>

definition begin_episode :: "('e, 'r, 'o, 'f) library \<Rightarrow> ('e, 'r, 'o, 'f) world \<Rightarrow> ('e, 'r, 'o, 'f) state" where
  "begin_episode lib w =
     (let (ts, e) = env_reset lib (env w)
      in world.extend (w\<lparr>env := e\<rparr>)
           \<lparr>timestep = ts, s_rollout = [], r_rollout = [], d_rollout = [],
            a_rollout = [], t_rollout = []\<rparr>)"

text \<open>The body of the \<open>for\<close> loop: the start above, then the \<open>while\<close> loop.\<close>

definition episode ::
  "('e, 'r, 'o, 'f::{zero,plus}) library \<Rightarrow> 'f args \<Rightarrow> nat \<Rightarrow> int \<Rightarrow> ('e, 'r, 'o, 'f) world \<Rightarrow>
   (error + ('e, 'r, 'o, 'f) world) option" where
  "episode lib args fuel i w =
     (case while_not_enough_data lib args i fuel (begin_episode lib w) of
        None \<Rightarrow> None
      | Some (Inl err) \<Rightarrow> Some (Inl err)
      | Some (Inr st') \<Rightarrow> Some (Inr (world.truncate st')))"

fun for_episodes ::
  "('e, 'r, 'o, 'f::{zero,plus}) library \<Rightarrow> 'f args \<Rightarrow> nat \<Rightarrow> int list \<Rightarrow> ('e, 'r, 'o, 'f) world \<Rightarrow>
   (error + ('e, 'r, 'o, 'f) world) option" where
  "for_episodes lib args fuel [] w = Some (Inr w)"
| "for_episodes lib args fuel (i # rest) w =
     (case episode lib args fuel i w of
        None \<Rightarrow> None
      | Some (Inl err) \<Rightarrow> Some (Inl err)
      | Some (Inr w') \<Rightarrow> for_episodes lib args fuel rest w')"

text \<open>\<open>range(n)\<close> for a Python integer: empty when \<open>n \<le> 0\<close>.\<close>

definition py_range :: "int \<Rightarrow> int list" where
  "py_range n = map int [0..<nat n]"

text \<open>Lines 118 to 120 of \<open>_run\<close>: the environment and the agent, before any episode.\<close>

definition initial_world :: "('e, 'r, 'o, 'f) library \<Rightarrow> 'f args \<Rightarrow> ('e, 'r, 'o, 'f) world" where
  "initial_world lib args =
     (let e = create_environment lib args;
          (ag, out) = init lib (env_action_spec lib e) (args.observation args)
                        (agent_seed args) (scale args)
      in \<lparr>env = e, agent = ag, dirs = [], files = [], stdout = out\<rparr>)"

text \<open>\<open>_run\<close>, with \<open>fuel\<close> passes of the \<open>while\<close> loop allowed in each episode.\<close>

definition run ::
  "('e, 'r, 'o, 'f::{zero,plus}) library \<Rightarrow> 'f args \<Rightarrow> nat \<Rightarrow>
   (error + ('e, 'r, 'o, 'f) world) option" where
  "run lib args fuel =
     (case for_episodes lib args fuel (py_range (num_episodes args)) (initial_world lib args) of
        None \<Rightarrow> None
      | Some (Inl err) \<Rightarrow> Some (Inl err)
      | Some (Inr w') \<Rightarrow>
          Some (Inr (w'\<lparr>stdout := stdout w' @
                         [AllEpisodesCompleted, print_stats (agent w')]\<rparr>)))"

section \<open>A scripted environment\<close>

text \<open>
  A stand-in for the external library, used to run the model on concrete inputs: an
  environment that exposes the observation channels it was created with and ends each
  episode after \<open>n\<close> steps, and a random source that counts its draws. Frames are
  numbers, and \<open>int\<close> stands in for float64.
\<close>

definition fake_library ::
  "nat \<Rightarrow> (string \<times> int spec) list \<Rightarrow> (string list \<times> nat, nat, nat, int) library" where
  "fake_library n action_spec =
     \<lparr>Environment = (\<lambda>settings names seed. (names, 0)),
      env_action_spec = (\<lambda>e. action_spec),
      env_reset = (\<lambda>(names, k).
        (\<lparr>step_type = FIRST, reward = None, discount = None,
          observation = (\<lambda>c. if c \<in> set names then Some 0 else None)\<rparr>, (names, 0))),
      env_step = (\<lambda>(names, k) action.
        (\<lparr>step_type = (if n \<le> Suc k then LAST else MID), reward = Some 0,
          discount = Some 1,
          observation = (\<lambda>c. if c \<in> set names then Some (Suc k) else None)\<rparr>,
         (names, Suc k))),
      RandomState = (\<lambda>seed. nat \<bar>seed\<bar>),
      randint = (\<lambda>r lo hi. if lo < hi then Some (lo + int r mod (hi - lo), Suc r) else None),
      uniform = (\<lambda>r lo hi. (lo, Suc r))\<rparr>"

text \<open>
  An action spec with two int32 channels and one channel of another dtype, one whose
  channel reaches the largest int32, the first timestep of an episode, and the agent
  built for the first spec with seed 0.
\<close>

definition example_spec :: "(string \<times> int spec) list" where
  "example_spec =
     [(''MOVE'', Int32Spec 0 4), (''TURN'', Int32Spec (- 1) 1), (''ZAP'', OtherSpec ''uint8'')]"

definition first_timestep :: "(nat, int) timestep" where
  "first_timestep =
     \<lparr>step_type = FIRST, reward = None, discount = None,
      observation = [''WORLD.RGB'' \<mapsto> 0]\<rparr>"

definition wide_spec :: "(string \<times> int spec) list" where
  "wide_spec = [(''MOVE'', Int32Spec 0 2147483647)]"

definition example_agent :: "(nat, int) PyGameRandomAgent" where
  "example_agent = fst (init (fake_library 3 example_spec) example_spec ''WORLD.RGB'' 0 1)"

text \<open>
  The state of the loop after \<open>k\<close> recorded steps of an episode in the scripted
  environment, with lists of \<open>k\<close> entries; and the default arguments of \<open>main\<close>.
\<close>

definition fake_state :: "nat \<Rightarrow> (string list \<times> nat, nat, nat, int) state" where
  "fake_state k =
     \<lparr>env = ([''WORLD.RGB''], k),
      agent = example_agent\<lparr>self_scores := [0], self_random := 2 * k\<rparr>,
      dirs = [], files = [], stdout = [],
      timestep = \<lparr>step_type = MID, reward = Some 0, discount = Some 1,
                  observation = [''WORLD.RGB'' \<mapsto> k]\<rparr>,
      s_rollout = replicate k 0,
      r_rollout = replicate k (Some 0),
      d_rollout = replicate k (Some 1),
      a_rollout = replicate k (IntVal 0),
      t_rollout = replicate k MID\<rparr>"

definition example_args :: "int args" where
  "example_args = default_args 1"

text \<open>At the head of the loop the five lists of the buffer have the same length.\<close>

definition aligned :: "('e, 'r, 'o, 'f) state \<Rightarrow> bool" where
  "aligned st =
     (length (s_rollout st) = length (a_rollout st) \<and>
      length (r_rollout st) = length (a_rollout st) \<and>
      length (d_rollout st) = length (a_rollout st) \<and>
      length (t_rollout st) = length (a_rollout st))"

text \<open>An action spec whose \<open>MOVE\<close> channel has an unsupported dtype.\<close>

definition no_move_spec :: "(string \<times> int spec) list" where
  "no_move_spec = [(''TURN'', Int32Spec (- 1) 1), (''MOVE'', OtherSpec ''uint8'')]"


text \<open>
  The shape of a persisted archive: four arrays of one length, at least 1000, and an
  actions array with one entry more.
\<close>

definition archive_shape :: "('o, 'f) archive \<Rightarrow> bool" where
  "archive_shape arc =
     (1000 \<le> length (observations arc) \<and>
      length (rewards arc) = length (observations arc) \<and>
      length (discounts arc) = length (observations arc) \<and>
      length (terminals arc) = length (observations arc) \<and>
      length (actions arc) = Suc (length (observations arc)))"

text \<open>
  A second scripted environment, whose frames depend on the environment seed: two runs
  with different seeds see different observations in episodes of the same length. It
  exposes \<open>WORLD.RGB\<close> whatever channel it was created with.
\<close>

definition seeded_library ::
  "nat \<Rightarrow> (string \<times> int spec) list \<Rightarrow> (int \<times> nat, nat, nat, int) library" where
  "seeded_library n action_spec =
     \<lparr>Environment = (\<lambda>settings names seed. (seed, 0)),
      env_action_spec = (\<lambda>e. action_spec),
      env_reset = (\<lambda>(seed, k).
        (\<lparr>step_type = FIRST, reward = None, discount = None,
          observation = [''WORLD.RGB'' \<mapsto> nat \<bar>seed\<bar>]\<rparr>, (seed, 0))),
      env_step = (\<lambda>(seed, k) action.
        (\<lparr>step_type = (if n \<le> Suc k then LAST else MID), reward = Some 0,
          discount = Some 1,
          observation = [''WORLD.RGB'' \<mapsto> nat \<bar>seed\<bar> + Suc k]\<rparr>,
         (seed, Suc k))),
      RandomState = (\<lambda>seed. nat \<bar>seed\<bar>),
      randint = (\<lambda>r lo hi. if lo < hi then Some (lo + int r mod (hi - lo), Suc r) else None),
      uniform = (\<lambda>r lo hi. (lo, Suc r))\<rparr>"

section \<open>One advancing stream, and the lengths of episodes\<close>



text \<open>
  The lengths of the episodes of a run, read off the loop as it runs: for each pass
  of the \<open>while\<close> loop, whether the timestep that \<open>env.step\<close> returned was the last
  of an episode. The passes up to and including a \<open>True\<close> are one episode attempt.
  \<open>None\<close> means that the loop did not come to its end (out of fuel, or an exception).
\<close>

fun pass_ends ::
  "('e, 'r, 'o, 'f::{zero,plus}) library \<Rightarrow> 'f args \<Rightarrow> int \<Rightarrow> nat \<Rightarrow> ('e, 'r, 'o, 'f) state \<Rightarrow>
   bool list option" where
  "pass_ends lib args i 0 st = None"
| "pass_ends lib args i (Suc fuel) st =
     (case record_step lib st of
        Inl e \<Rightarrow> None
      | Inr (action, st1) \<Rightarrow>
          (case loop_body lib args i st of
             Inl e \<Rightarrow> None
           | Inr (enough_data, st') \<Rightarrow>
               if enough_data then Some [timestep_last (timestep st1)]
               else map_option ((#) (timestep_last (timestep st1)))
                      (pass_ends lib args i fuel st')))"

fun for_pass_ends ::
  "('e, 'r, 'o, 'f::{zero,plus}) library \<Rightarrow> 'f args \<Rightarrow> nat \<Rightarrow> int list \<Rightarrow> ('e, 'r, 'o, 'f) world \<Rightarrow>
   bool list list option" where
  "for_pass_ends lib args fuel [] w = Some []"
| "for_pass_ends lib args fuel (i # rest) w =
     (case pass_ends lib args i fuel (begin_episode lib w) of
        None \<Rightarrow> None
      | Some bs \<Rightarrow>
          (case episode lib args fuel i w of
             Some (Inr w') \<Rightarrow> map_option ((#) bs) (for_pass_ends lib args fuel rest w')
           | _ \<Rightarrow> None))"

definition run_pass_ends ::
  "('e, 'r, 'o, 'f::{zero,plus}) library \<Rightarrow> 'f args \<Rightarrow> nat \<Rightarrow> bool list list option" where
  "run_pass_ends lib args fuel =
     for_pass_ends lib args fuel (py_range (num_episodes args)) (initial_world lib args)"


section \<open>The Dispatcher's commands\<close>

text \<open>
  C1. The Dispatcher computes the quota \<open>rpt = R // T + 1\<close>, which is 4 for 10
  rollouts on 3 threads, and hands it to \<open>_threaded_generation\<close>; but the command
  built there reads \<open>args.rollouts\<close>, so the list handed to \<open>subprocess.call\<close> for
  each of the three threads ends in \<open>--num_episodes=10\<close>, not in the quota 4.
\<close>

theorem dispatcher_passes_rollouts_not_quota:
  "quota \<lparr>rollouts = 10, threads = 3, rootdir = ''out'', policy = ''brown''\<rparr> = Inr 4 \<and>
   map_sum id (map (\<lambda>t. last (called t)))
     (generation_script_main
        \<lparr>rollouts = 10, threads = 3, rootdir = ''out'', policy = ''brown''\<rparr>) =
   Inr [''--num_episodes=10'', ''--num_episodes=10'', ''--num_episodes=10'']"
  by code_simp

text \<open>
  The command that \<open>_threaded_generation\<close> builds depends on neither the quota nor the
  thread index, and the directory made for the thread is not part of it.
\<close>

lemma command_ignores_quota_and_index:
  "called (threaded_generation args rpt i) = called (threaded_generation args rpt' j)"
  by (simp add: threaded_generation_def)

section \<open>The random agent's samplers\<close>

text \<open>
  What \<open>__init__\<close> appends for the head of the action spec, and what it prints.
\<close>

lemma channels_Cons:
  "channels lib ((name, sp) # rest) =
     ((case sp of
         Int32Spec mn mx \<Rightarrow> [(name, make_int32_distribution lib mn mx)]
       | Float64Spec mn mx \<Rightarrow> [(name, make_float64_distribution lib mn mx)]
       | OtherSpec d \<Rightarrow> []) @ fst (channels lib rest),
      (case sp of OtherSpec d \<Rightarrow> [NotSupported (OtherSpec d)] | _ \<Rightarrow> []) @
        snd (channels lib rest))"
  by (cases sp) (simp_all split: prod.splits)

lemma channels_names:
  "(name, gen) \<in> set (fst (channels lib action_spec)) \<Longrightarrow> name \<in> fst ` set action_spec"
proof (induction action_spec)
  case Nil
  then show ?case by simp
next
  case (Cons p rest)
  obtain n sp where p: "p = (n, sp)" by (cases p)
  from Cons show ?case unfolding p channels_Cons by (cases sp) auto
qed

lemma channels_distinct:
  "distinct (map fst action_spec) \<Longrightarrow> distinct (map fst (fst (channels lib action_spec)))"
proof (induction action_spec)
  case Nil
  then show ?case by simp
next
  case (Cons p rest)
  obtain n sp where p: "p = (n, sp)" by (cases p)
  from Cons have "n \<notin> fst ` set (fst (channels lib rest))"
    unfolding p using channels_names [of n _ lib rest] by auto
  with Cons show ?case unfolding p channels_Cons by (cases sp) auto
qed

lemma channels_int32:
  "(name, Int32Spec mn mx) \<in> set action_spec \<Longrightarrow>
   (name, make_int32_distribution lib mn mx) \<in> set (fst (channels lib action_spec))"
proof (induction action_spec)
  case Nil
  then show ?case by simp
next
  case (Cons p rest)
  obtain n sp where p: "p = (n, sp)" by (cases p)
  from Cons show ?case unfolding p channels_Cons by (cases sp) auto
qed

lemma channels_supported:
  "(name, gen) \<in> set (fst (channels lib action_spec)) \<Longrightarrow>
   \<exists>sp. (name, sp) \<in> set action_spec \<and> (\<forall>d. sp \<noteq> OtherSpec d)"
proof (induction action_spec)
  case Nil
  then show ?case by simp
next
  case (Cons p rest)
  obtain n sp where p: "p = (n, sp)" by (cases p)
  from Cons show ?case unfolding p channels_Cons by (cases sp) auto
qed

lemma channels_warning:
  "(name, OtherSpec d) \<in> set action_spec \<Longrightarrow>
   NotSupported (OtherSpec d) \<in> set (snd (channels lib action_spec))"
proof (induction action_spec)
  case Nil
  then show ?case by simp
next
  case (Cons p rest)
  obtain n sp where p: "p = (n, sp)" by (cases p)
  from Cons show ?case unfolding p channels_Cons by (cases sp) auto
qed

text \<open>The dict comprehension leaves the keys of other channels alone.\<close>

lemma comprehension_other:
  "comprehension acts r m = Some (m', r') \<Longrightarrow> name \<notin> fst ` set acts \<Longrightarrow> m' name = m name"
proof (induction acts arbitrary: r m)
  case Nil
  then show ?case by simp
next
  case (Cons p rest)
  obtain n gen where p: "p = (n, gen)" by (cases p)
  from Cons.prems obtain v r1 where
    c: "comprehension rest r1 (m(n \<mapsto> v)) = Some (m', r')"
    and n: "name \<noteq> n" "name \<notin> fst ` set rest"
    unfolding p by (auto split: option.splits)
  from Cons.IH [OF c n(2)] n(1) show ?case by simp
qed

lemma comprehension_drawn:
  "comprehension acts r m = Some (m', r') \<Longrightarrow> distinct (map fst acts) \<Longrightarrow>
   (name, gen) \<in> set acts \<Longrightarrow> \<exists>r0 v r1. gen r0 = Some (v, r1) \<and> m' name = Some v"
proof (induction acts arbitrary: r m)
  case Nil
  then show ?case by simp
next
  case (Cons p rest)
  obtain n g where p: "p = (n, g)" by (cases p)
  from Cons.prems(1) obtain v r1 where
    g: "g r = Some (v, r1)" and
    c: "comprehension rest r1 (m(n \<mapsto> v)) = Some (m', r')"
    unfolding p by (auto split: option.splits)
  from Cons.prems(2) have d: "distinct (map fst rest)" and nn: "n \<notin> fst ` set rest"
    unfolding p by auto
  show ?case
  proof (cases "(name, gen) \<in> set rest")
    case True
    from Cons.IH [OF c d True] show ?thesis .
  next
    case False
    with Cons.prems(3) have e: "n = name" "g = gen" unfolding p by auto
    from comprehension_other [OF c nn] e have "m' name = Some v" by simp
    with g e show ?thesis by blast
  qed
qed

lemma step_Inr:
  "step self ts = Inr (action, self') \<Longrightarrow>
   \<exists>sc. update_scores (self_scores self) (reward ts) = Inr sc \<and>
     comprehension (self_actions self) (self_random self) Map.empty =
       Some (action, self_random self') \<and>
     self' = self\<lparr>self_scores := sc, self_random := self_random self'\<rparr>"
  by (auto simp: step_def split: sum.splits option.splits)

lemma step_actions: "step self ts = Inr (action, self') \<Longrightarrow> self_actions self' = self_actions self"
  by (auto simp: step_def split: sum.splits option.splits)

text \<open>
  The wrap-around never goes upwards, so the upper end of the range that \<open>randint\<close>
  is given is at most \<open>maximum + 1\<close>.
\<close>

lemma int32_le: "- 2147483648 \<le> n \<Longrightarrow> int32 n \<le> n"
proof -
  assume "- 2147483648 \<le> n"
  then have "0 \<le> n + 2147483648" by simp
  then have "(n + 2147483648) mod 4294967296 \<le> n + 2147483648"
    by (rule zmod_le_nonneg_dividend)
  then show ?thesis by (simp add: int32_def)
qed

lemma int32_distribution_bounds:
  assumes "\<forall>r lo hi v r'. randint lib r lo hi = Some (v, r') \<longrightarrow> lo \<le> v \<and> v < hi"
    and "- 2147483648 \<le> mx"
    and "make_int32_distribution lib mn mx r = Some (x, r')"
  shows "\<exists>v. x = IntVal v \<and> mn \<le> v \<and> v \<le> mx"
proof -
  from assms(3) obtain v where
    r: "randint lib r mn (int32 (mx + 1)) = Some (v, r')" and x: "x = IntVal v"
    by (auto simp: make_int32_distribution_def split: option.splits)
  from assms(1) r have "mn \<le> v" "v < int32 (mx + 1)" by blast+
  moreover from assms(2) have "int32 (mx + 1) \<le> mx + 1" by (intro int32_le) simp
  ultimately show ?thesis using x by simp
qed

text \<open>
  C5. Take a random source whose \<open>randint(lo, hi)\<close> keeps its contract: whatever it
  returns lies in the half-open range from \<open>lo\<close> to \<open>hi\<close> (so it raises on an empty
  range). For an int32 channel with bounds \<open>mn\<close> and \<open>mx\<close> of an action spec with
  distinct names (it is a dictionary), \<open>mx\<close> an int32 value, every call of \<open>step\<close>
  on an agent that holds the samplers built from that spec, if it returns, returns an
  action whose value for the channel is an integer between \<open>mn\<close> and \<open>mx\<close>
  inclusive; the agent keeps the same samplers, so this holds for every draw of a run,
  whatever the state of the random source. The sum \<open>maximum + 1\<close> is computed in
  int32: at the largest int32 it wraps, the range is empty and \<open>randint\<close> raises,
  so that no value is sampled.
\<close>

theorem int32_samples_within_bounds:
  assumes "\<forall>r lo hi v r'. randint lib r lo hi = Some (v, r') \<longrightarrow> lo \<le> v \<and> v < hi"
    and "distinct (map fst action_spec)"
    and "(name, Int32Spec mn mx) \<in> set action_spec"
    and "- 2147483648 \<le> mx"
    and "self_actions self = fst (channels lib action_spec)"
    and "step self ts = Inr (action, self')"
  shows "(\<exists>v. action name = Some (IntVal v) \<and> mn \<le> v \<and> v \<le> mx) \<and>
         self_actions self' = fst (channels lib action_spec)"
proof -
  from assms(6) have c: "comprehension (self_actions self) (self_random self) Map.empty =
      Some (action, self_random self')"
    using step_Inr by blast
  have d: "distinct (map fst (self_actions self))" using assms(2,5) by (simp add: channels_distinct)
  have m: "(name, make_int32_distribution lib mn mx) \<in> set (self_actions self)"
    using assms(3,5) by (simp add: channels_int32)
  from comprehension_drawn [OF c d m] obtain r0 x r1 where
    g: "make_int32_distribution lib mn mx r0 = Some (x, r1)" and a: "action name = Some x"
    by blast
  from int32_distribution_bounds [OF assms(1,4) g] a
  have "\<exists>v. action name = Some (IntVal v) \<and> mn \<le> v \<and> v \<le> mx" by auto
  moreover have "self_actions self' = fst (channels lib action_spec)"
    using step_actions [OF assms(6)] assms(5) by simp
  ultimately show ?thesis by simp
qed

text \<open>
  C7. A channel whose dtype is neither int32 nor float64 gets a warning from the
  constructor and no sampler: the action returned by any later \<open>step\<close> has no
  entry under its name, and the samplers stay as the constructor left them.
\<close>

theorem unsupported_channel_skipped:
  assumes "distinct (map fst action_spec)"
    and "(name, OtherSpec d) \<in> set action_spec"
    and "init lib action_spec observation_name seed scale0 = (self0, out)"
    and "self_actions self = self_actions self0"
    and "step self ts = Inr (action, self')"
  shows "NotSupported (OtherSpec d) \<in> set out \<and> action name = None \<and>
         self_actions self' = self_actions self0"
proof -
  from assms(3) have a0: "self_actions self0 = fst (channels lib action_spec)"
    and o: "out = snd (channels lib action_spec)"
    by (auto simp: init_def split: prod.splits)
  have "name \<notin> fst ` set (fst (channels lib action_spec))"
  proof
    assume "name \<in> fst ` set (fst (channels lib action_spec))"
    then obtain gen where "(name, gen) \<in> set (fst (channels lib action_spec))" by auto
    from channels_supported [OF this] obtain sp where
      sp: "(name, sp) \<in> set action_spec" "sp \<noteq> OtherSpec d" by blast
    from assms(1) sp(1) assms(2) have "sp = OtherSpec d"
      by (meson eq_key_imp_eq_value)
    with sp(2) show False by simp
  qed
  with a0 assms(4) have n: "name \<notin> fst ` set (self_actions self)" by simp
  from assms(5) have "comprehension (self_actions self) (self_random self) Map.empty =
      Some (action, self_random self')"
    using step_Inr by blast
  from comprehension_other [OF this n] have "action name = None" by simp
  moreover have "NotSupported (OtherSpec d) \<in> set out" using o assms(2) by (simp add: channels_warning)
  moreover have "self_actions self' = self_actions self0" using step_actions [OF assms(5)] assms(4) by simp
  ultimately show ?thesis by simp
qed

text \<open>The scripted random source keeps the contract of \<open>randint\<close>.\<close>

lemma fake_randint_contract:
  "\<forall>r lo hi v r'. randint (fake_library n sp) r lo hi = Some (v, r') \<longrightarrow> lo \<le> v \<and> v < hi"
proof (intro allI impI)
  fix r r' :: nat and lo hi v :: int
  assume a: "randint (fake_library n sp) r lo hi = Some (v, r')"
  then have l: "lo < hi" and v: "v = lo + int r mod (hi - lo)"
    by (auto simp: fake_library_def split: if_splits)
  from l have "0 < hi - lo" by simp
  then have "0 \<le> int r mod (hi - lo)" "int r mod (hi - lo) < hi - lo"
    by (rule pos_mod_sign, rule pos_mod_bound)
  with v show "lo \<le> v \<and> v < hi" by simp
qed

text \<open>The scripted environment, evaluated.\<close>

lemma example_agent_eq:
  "example_agent =
     \<lparr>self_observation_name = ''WORLD.RGB'', self_random = 0,
      self_actions = [(''MOVE'', make_int32_distribution (fake_library 3 example_spec) 0 4),
                      (''TURN'', make_int32_distribution (fake_library 3 example_spec) (- 1) 1)],
      self_scores = [], self_scale = 1\<rparr>"
  by (simp add: example_agent_def init_def example_spec_def fake_library_def)

lemma example_agent_steps: "\<exists>x. step example_agent first_timestep = Inr x"
  by (simp add: example_agent_eq step_def update_scores_def first_timestep_def
      make_int32_distribution_def fake_library_def int32_def)

theorem int32_samples_within_bounds_witness:
  "distinct (map fst example_spec) \<and> (''TURN'', Int32Spec (- 1) 1) \<in> set example_spec \<and>
   (\<exists>action self'. step example_agent first_timestep = Inr (action, self') \<and>
      (\<exists>v. action ''TURN'' = Some (IntVal v) \<and> - 1 \<le> v \<and> v \<le> 1))"
proof -
  let ?lib = "fake_library 3 example_spec"
  have d: "distinct (map fst example_spec)" by (simp add: example_spec_def)
  have m: "(''TURN'', Int32Spec (- 1) 1) \<in> set example_spec" by (simp add: example_spec_def)
  have a: "self_actions example_agent = fst (channels ?lib example_spec)"
    by (simp add: example_agent_def init_def split: prod.splits)
  from example_agent_steps obtain action self' where
    s: "step example_agent first_timestep = Inr (action, self')" by auto
  from int32_samples_within_bounds [OF fake_randint_contract d m _ a s]
  have "\<exists>v. action ''TURN'' = Some (IntVal v) \<and> - 1 \<le> v \<and> v \<le> 1" by simp
  with d m s show ?thesis by blast
qed

text \<open>
  At the largest int32 the upper end wraps to the smallest one and the call raises:
  the agent built for such a channel samples nothing.
\<close>

lemma int32_maximum_raises:
  "step (fst (init (fake_library 3 wide_spec) wide_spec ''WORLD.RGB'' 0 1)) first_timestep =
   Inl ValueError"
  by (simp add: init_def wide_spec_def step_def update_scores_def first_timestep_def
      make_int32_distribution_def fake_library_def int32_def)

theorem unsupported_channel_skipped_witness:
  "distinct (map fst example_spec) \<and> (''ZAP'', OtherSpec ''uint8'') \<in> set example_spec \<and>
   NotSupported (OtherSpec ''uint8'') \<in>
     set (snd (init (fake_library 3 example_spec) example_spec ''WORLD.RGB'' 0 1)) \<and>
   (\<exists>action self'. step example_agent first_timestep = Inr (action, self') \<and>
      action ''ZAP'' = None)"
proof -
  let ?lib = "fake_library 3 example_spec"
  have d: "distinct (map fst example_spec)" by (simp add: example_spec_def)
  have m: "(''ZAP'', OtherSpec ''uint8'') \<in> set example_spec" by (simp add: example_spec_def)
  have i: "init ?lib example_spec ''WORLD.RGB'' 0 1 =
      (example_agent, snd (init ?lib example_spec ''WORLD.RGB'' 0 1))"
    by (simp add: example_agent_def)
  from example_agent_steps obtain action self' where
    s: "step example_agent first_timestep = Inr (action, self')" by auto
  from unsupported_channel_skipped [OF d m i refl s] d m s show ?thesis by blast
qed

section \<open>One pass of the episode loop\<close>

text \<open>What a successful call of each part of the loop body has done.\<close>

lemma record_step_Inr:
  assumes "record_step lib st = Inr (action, st')"
  shows "\<exists>ag ts e frame mv.
     step (agent st) (timestep st) = Inr (action, ag) \<and>
     env_step lib (env st) action = (ts, e) \<and>
     timestep.observation ts ''WORLD.RGB'' = Some frame \<and>
     action ''MOVE'' = Some mv \<and>
     st' = st\<lparr>agent := ag, env := e, timestep := ts,
              s_rollout := s_rollout st @ [frame],
              r_rollout := r_rollout st @ [reward ts],
              d_rollout := d_rollout st @ [discount ts],
              a_rollout := a_rollout st @ [mv],
              t_rollout := t_rollout st @ [step_type ts]\<rparr>"
  using assms
  by (auto simp: record_step_def split: sum.splits prod.splits option.splits)

lemma terminal_step_Inr:
  assumes "terminal_step lib args i action st = Inr (enough_data, st')"
  shows "\<exists>unused ag mv.
     step (agent st) (timestep st) = Inr (unused, ag) \<and>
     action ''MOVE'' = Some mv \<and>
     (if length (a_rollout st @ [mv]) \<le> 1000 then
        \<not> enough_data \<and>
        st' = st\<lparr>agent := ag, env := snd (env_reset lib (env st)),
                 timestep := fst (env_reset lib (env st)),
                 s_rollout := [], r_rollout := [], d_rollout := [],
                 a_rollout := [], t_rollout := []\<rparr>
      else
        enough_data \<and>
        st' = st\<lparr>agent := ag, a_rollout := a_rollout st @ [mv],
                 dirs := dirs st @ [thread_dir args],
                 files := files st @
                   [(rollout_file args i,
                     \<lparr>observations = s_rollout st, rewards = r_rollout st,
                      discounts = d_rollout st, actions = a_rollout st @ [mv],
                      terminals = t_rollout st\<rparr>)],
                 stdout := stdout st @
                   [EndOfRollout i (num_episodes args),
                    FileWillBeSavedTo
                      (join (thread_dir args) (''rollout_'' @ str i @ ''.npz''))]\<rparr>)"
  using assms
  by (auto simp: terminal_step_def Let_def split: sum.splits prod.splits option.splits if_splits)

lemma loop_body_cases:
  assumes "loop_body lib args i st = Inr (enough_data, st')"
  shows "\<exists>action st1. record_step lib st = Inr (action, st1) \<and>
     (if timestep_last (timestep st1)
      then terminal_step lib args i action st1 = Inr (enough_data, st')
      else \<not> enough_data \<and> st' = st1)"
  using assms
  by (auto simp: loop_body_def split: sum.splits prod.splits if_splits)

lemma record_step_world:
  "record_step lib st = Inr (action, st1) \<Longrightarrow>
   files st1 = files st \<and> dirs st1 = dirs st \<and> stdout st1 = stdout st"
  by (drule record_step_Inr) auto

text \<open>
  C2, as amended. On a terminal step the script appends \<open>action["MOVE"]\<close> once
  more and then tests the length of the actions list alone: the buffer is persisted if
  and only if that list, the extra entry included, holds more than 1000 entries, which
  is when at least 1000 steps were recorded. When it is persisted, the archive holds
  the five lists and the loop ends; otherwise no file and no directory is written, the
  five lists are empty, the environment is reset, and the loop goes on with the same
  episode index \<open>i\<close>.
\<close>

theorem persisted_iff_actions_exceed_1000:
  assumes "record_step lib st = Inr (action, st1)"
    and "timestep_last (timestep st1)"
    and "loop_body lib args i st = Inr (enough_data, st')"
  shows "\<exists>mv. action ''MOVE'' = Some mv \<and>
     (enough_data \<longleftrightarrow> 1000 < length (a_rollout st1 @ [mv])) \<and>
     (enough_data \<longrightarrow>
        files st' = files st @
          [(rollout_file args i,
            \<lparr>observations = s_rollout st1, rewards = r_rollout st1,
             discounts = d_rollout st1, actions = a_rollout st1 @ [mv],
             terminals = t_rollout st1\<rparr>)] \<and>
        while_not_enough_data lib args i (Suc fuel) st = Some (Inr st')) \<and>
     (\<not> enough_data \<longrightarrow>
        files st' = files st \<and> dirs st' = dirs st \<and>
        s_rollout st' = [] \<and> r_rollout st' = [] \<and> d_rollout st' = [] \<and>
        a_rollout st' = [] \<and> t_rollout st' = [] \<and>
        (timestep st', env st') = env_reset lib (env st1) \<and>
        while_not_enough_data lib args i (Suc fuel) st =
          while_not_enough_data lib args i fuel st')"
proof -
  from assms have t: "terminal_step lib args i action st1 = Inr (enough_data, st')"
    by (simp add: loop_body_def)
  from record_step_world [OF assms(1)] have w: "files st1 = files st" "dirs st1 = dirs st"
    by simp_all
  from terminal_step_Inr [OF t] obtain unused ag mv where
    mv: "action ''MOVE'' = Some mv" and
    c: "if length (a_rollout st1 @ [mv]) \<le> 1000 then
        \<not> enough_data \<and>
        st' = st1\<lparr>agent := ag, env := snd (env_reset lib (env st1)),
                 timestep := fst (env_reset lib (env st1)),
                 s_rollout := [], r_rollout := [], d_rollout := [],
                 a_rollout := [], t_rollout := []\<rparr>
      else
        enough_data \<and>
        st' = st1\<lparr>agent := ag, a_rollout := a_rollout st1 @ [mv],
                 dirs := dirs st1 @ [thread_dir args],
                 files := files st1 @
                   [(rollout_file args i,
                     \<lparr>observations = s_rollout st1, rewards = r_rollout st1,
                      discounts = d_rollout st1, actions = a_rollout st1 @ [mv],
                      terminals = t_rollout st1\<rparr>)],
                 stdout := stdout st1 @
                   [EndOfRollout i (num_episodes args),
                    FileWillBeSavedTo
                      (join (thread_dir args) (''rollout_'' @ str i @ ''.npz''))]\<rparr>"
    by blast
  show ?thesis
  proof (cases "length (a_rollout st1 @ [mv]) \<le> 1000")
    case True
    with c have "\<not> enough_data" and
      s: "st' = st1\<lparr>agent := ag, env := snd (env_reset lib (env st1)),
                 timestep := fst (env_reset lib (env st1)),
                 s_rollout := [], r_rollout := [], d_rollout := [],
                 a_rollout := [], t_rollout := []\<rparr>" by simp_all
    with True mv w assms(3) show ?thesis by (intro exI [of _ mv]) simp
  next
    case False
    with c have "enough_data" and
      s: "st' = st1\<lparr>agent := ag, a_rollout := a_rollout st1 @ [mv],
                 dirs := dirs st1 @ [thread_dir args],
                 files := files st1 @
                   [(rollout_file args i,
                     \<lparr>observations = s_rollout st1, rewards = r_rollout st1,
                      discounts = d_rollout st1, actions = a_rollout st1 @ [mv],
                      terminals = t_rollout st1\<rparr>)],
                 stdout := stdout st1 @
                   [EndOfRollout i (num_episodes args),
                    FileWillBeSavedTo
                      (join (thread_dir args) (''rollout_'' @ str i @ ''.npz''))]\<rparr>" by simp_all
    with False mv w assms(3) show ?thesis by (intro exI [of _ mv]) simp
  qed
qed

lemma fake_step:
  "step (example_agent\<lparr>self_scores := [0], self_random := r\<rparr>)
     \<lparr>step_type = t, reward = Some 0, discount = d, observation = ob\<rparr> =
   Inr ([''MOVE'' \<mapsto> IntVal (int r mod 5), ''TURN'' \<mapsto> IntVal (- 1 + int (Suc r) mod 3)],
        example_agent\<lparr>self_scores := [0], self_random := Suc (Suc r)\<rparr>)"
  by (simp add: example_agent_eq step_def update_scores_def make_int32_distribution_def
      fake_library_def int32_def)

lemma fake_record_step:
  "record_step (fake_library n example_spec) (fake_state k) =
   Inr ([''MOVE'' \<mapsto> IntVal (int (2 * k) mod 5),
         ''TURN'' \<mapsto> IntVal (- 1 + int (Suc (2 * k)) mod 3)],
        (fake_state k)
          \<lparr>agent := example_agent\<lparr>self_scores := [0], self_random := Suc (Suc (2 * k))\<rparr>,
           env := ([''WORLD.RGB''], Suc k),
           timestep := \<lparr>step_type = (if n \<le> Suc k then LAST else MID), reward = Some 0,
                         discount = Some 1,
                         observation = (\<lambda>c. if c \<in> set [''WORLD.RGB''] then Some (Suc k) else None)\<rparr>,
           s_rollout := replicate k 0 @ [Suc k],
           r_rollout := replicate k (Some 0) @ [Some 0],
           d_rollout := replicate k (Some 1) @ [Some 1],
           a_rollout := replicate k (IntVal 0) @ [IntVal (int (2 * k) mod 5)],
           t_rollout := replicate k MID @ [if n \<le> Suc k then LAST else MID]\<rparr>)"
  by (simp add: record_step_def fake_state_def fake_step fake_library_def)

text \<open>
  C2 as stated fails: an episode that ends after exactly 1000 recorded steps is
  persisted, with 1000 entries in each of the observation, reward, discount and
  step-type lists.
\<close>

theorem thousand_entries_persisted:
  "map_sum id
     (\<lambda>(enough_data, st').
        (enough_data,
         map (\<lambda>(file, arc). (length (observations arc), length (rewards arc),
                length (discounts arc), length (terminals arc))) (files st')))
     (loop_body (fake_library 1000 example_spec) example_args 0 (fake_state 999)) =
   Inr (True, [(1000, 1000, 1000, 1000)])"
  unfolding loop_body_def fake_record_step
  by (simp add: timestep_last_def terminal_step_def fake_step fake_state_def Let_def)

lemma fake_record_step_last:
  "record_step (fake_library (Suc k) example_spec) (fake_state k) = Inr (action, st1) \<Longrightarrow>
   timestep_last (timestep st1)"
  unfolding fake_record_step by (auto simp: timestep_last_def)

lemma fake_loop_body_kept:
  "\<exists>st'. loop_body (fake_library 1000 example_spec) args i (fake_state 999) = Inr (True, st')"
  unfolding loop_body_def fake_record_step
  by (simp add: timestep_last_def terminal_step_def fake_step fake_state_def Let_def)

lemma fake_loop_body_discarded:
  "\<exists>st'. loop_body (fake_library 6 example_spec) args i (fake_state 5) = Inr (False, st')"
  unfolding loop_body_def fake_record_step
  by (simp add: timestep_last_def terminal_step_def fake_step fake_state_def Let_def
      fake_library_def)

theorem persisted_iff_actions_exceed_1000_witness:
  "(\<exists>st'. loop_body (fake_library 1000 example_spec) example_args 0 (fake_state 999) =
       Inr (True, st') \<and>
     files st' =
       [(rollout_file example_args 0,
         \<lparr>observations = replicate 999 0 @ [1000],
          rewards = replicate 999 (Some 0) @ [Some 0],
          discounts = replicate 999 (Some 1) @ [Some 1],
          actions = replicate 999 (IntVal 0) @ [IntVal 3, IntVal 3],
          terminals = replicate 999 MID @ [LAST]\<rparr>)] \<and>
     while_not_enough_data (fake_library 1000 example_spec) example_args 0 (Suc 0)
       (fake_state 999) = Some (Inr st')) \<and>
   (\<exists>st'. loop_body (fake_library 6 example_spec) example_args 0 (fake_state 5) =
       Inr (False, st') \<and>
     files st' = [] \<and> dirs st' = [] \<and> s_rollout st' = [] \<and> a_rollout st' = [] \<and>
     env st' = ([''WORLD.RGB''], 0) \<and>
     while_not_enough_data (fake_library 6 example_spec) example_args 0 (Suc 0)
       (fake_state 5) = None)"
proof -
  let ?lib = "fake_library 1000 example_spec"
  obtain action st1 where r: "record_step ?lib (fake_state 999) = Inr (action, st1)"
    unfolding fake_record_step by blast
  have l: "timestep_last (timestep st1)"
    using fake_record_step_last [of 999 action st1] r by simp
  from fake_loop_body_kept obtain st' where
    b: "loop_body ?lib example_args 0 (fake_state 999) = Inr (True, st')" by blast
  from persisted_iff_actions_exceed_1000 [OF r l b, of 0] r b have kept:
    "\<exists>st'. loop_body ?lib example_args 0 (fake_state 999) = Inr (True, st') \<and>
     files st' =
       [(rollout_file example_args 0,
         \<lparr>observations = replicate 999 0 @ [1000],
          rewards = replicate 999 (Some 0) @ [Some 0],
          discounts = replicate 999 (Some 1) @ [Some 1],
          actions = replicate 999 (IntVal 0) @ [IntVal 3, IntVal 3],
          terminals = replicate 999 MID @ [LAST]\<rparr>)] \<and>
     while_not_enough_data ?lib example_args 0 (Suc 0) (fake_state 999) = Some (Inr st')"
    unfolding fake_record_step by (auto simp: fake_state_def)
  let ?short = "fake_library 6 example_spec"
  obtain action2 st2 where r2: "record_step ?short (fake_state 5) = Inr (action2, st2)"
    unfolding fake_record_step by blast
  have l2: "timestep_last (timestep st2)"
    using fake_record_step_last [of 5 action2 st2] r2 by simp
  from fake_loop_body_discarded obtain st'' where
    b2: "loop_body ?short example_args 0 (fake_state 5) = Inr (False, st'')" by blast
  from persisted_iff_actions_exceed_1000 [OF r2 l2 b2, of 0] r2 b2 have discarded:
    "\<exists>st'. loop_body ?short example_args 0 (fake_state 5) = Inr (False, st') \<and>
     files st' = [] \<and> dirs st' = [] \<and> s_rollout st' = [] \<and> a_rollout st' = [] \<and>
     env st' = ([''WORLD.RGB''], 0) \<and>
     while_not_enough_data ?short example_args 0 (Suc 0) (fake_state 5) = None"
    unfolding fake_record_step by (auto simp: fake_state_def fake_library_def)
  from kept discarded show ?thesis by blast
qed

text \<open>
  C4, as amended. On a terminal step the agent is stepped once more, which draws from
  the random source, and the action it returns is dropped; the value appended to the
  actions list is \<open>action["MOVE"]\<close> of the action already applied in that step, so it
  stands there twice. Nothing is appended to the other four lists. An episode kept
  after \<open>Suc n\<close> recorded steps therefore yields an archive whose observations,
  rewards, discounts and terminals have \<open>Suc n\<close> entries and whose actions have one
  more.
\<close>

theorem terminal_action_appended_twice:
  assumes "step (agent st) (timestep st) = Inr (action, ag)"
    and "env_step lib (env st) action = (ts, e)"
    and "timestep_last ts"
    and "loop_body lib args i st = Inr (enough_data, st')"
    and "length (s_rollout st) = n" and "length (r_rollout st) = n"
    and "length (d_rollout st) = n" and "length (a_rollout st) = n"
    and "length (t_rollout st) = n"
  shows "\<exists>unused mv frame.
     step ag ts = Inr (unused, agent st') \<and>
     action ''MOVE'' = Some mv \<and>
     timestep.observation ts ''WORLD.RGB'' = Some frame \<and>
     (enough_data \<longrightarrow>
        (\<exists>arc. files st' = files st @ [(rollout_file args i, arc)] \<and>
           observations arc = s_rollout st @ [frame] \<and>
           rewards arc = r_rollout st @ [reward ts] \<and>
           discounts arc = d_rollout st @ [discount ts] \<and>
           terminals arc = t_rollout st @ [step_type ts] \<and>
           actions arc = a_rollout st @ [mv, mv] \<and>
           length (observations arc) = Suc n \<and> length (rewards arc) = Suc n \<and>
           length (discounts arc) = Suc n \<and> length (terminals arc) = Suc n \<and>
           length (actions arc) = Suc (Suc n)))"
proof -
  from loop_body_cases [OF assms(4)] obtain action' st1 where
    r: "record_step lib st = Inr (action', st1)" and
    c: "if timestep_last (timestep st1)
        then terminal_step lib args i action' st1 = Inr (enough_data, st')
        else \<not> enough_data \<and> st' = st1" by blast
  from record_step_Inr [OF r] assms(1,2) obtain frame mv where
    a: "action' = action" and
    f: "timestep.observation ts ''WORLD.RGB'' = Some frame" and
    m: "action ''MOVE'' = Some mv" and
    s1: "st1 = st\<lparr>agent := ag, env := e, timestep := ts,
              s_rollout := s_rollout st @ [frame],
              r_rollout := r_rollout st @ [reward ts],
              d_rollout := d_rollout st @ [discount ts],
              a_rollout := a_rollout st @ [mv],
              t_rollout := t_rollout st @ [step_type ts]\<rparr>" by auto
  from s1 assms(3) c a have t: "terminal_step lib args i action st1 = Inr (enough_data, st')"
    by simp
  from terminal_step_Inr [OF t] m s1 obtain unused ag' where
    u: "step ag ts = Inr (unused, ag')" and
    d: "if length (a_rollout st1 @ [mv]) \<le> 1000 then
        \<not> enough_data \<and>
        st' = st1\<lparr>agent := ag', env := snd (env_reset lib (env st1)),
                 timestep := fst (env_reset lib (env st1)),
                 s_rollout := [], r_rollout := [], d_rollout := [],
                 a_rollout := [], t_rollout := []\<rparr>
      else
        enough_data \<and>
        st' = st1\<lparr>agent := ag', a_rollout := a_rollout st1 @ [mv],
                 dirs := dirs st1 @ [thread_dir args],
                 files := files st1 @
                   [(rollout_file args i,
                     \<lparr>observations = s_rollout st1, rewards = r_rollout st1,
                      discounts = d_rollout st1, actions = a_rollout st1 @ [mv],
                      terminals = t_rollout st1\<rparr>)],
                 stdout := stdout st1 @
                   [EndOfRollout i (num_episodes args),
                    FileWillBeSavedTo
                      (join (thread_dir args) (''rollout_'' @ str i @ ''.npz''))]\<rparr>"
    by auto
  have g: "agent st' = ag'" using d by (auto split: if_splits)
  show ?thesis
  proof (cases "length (a_rollout st1 @ [mv]) \<le> 1000")
    case True
    with d have "\<not> enough_data" by simp
    with u g f m show ?thesis by auto
  next
    case False
    with d have k: "st' = st1\<lparr>agent := ag', a_rollout := a_rollout st1 @ [mv],
                 dirs := dirs st1 @ [thread_dir args],
                 files := files st1 @
                   [(rollout_file args i,
                     \<lparr>observations = s_rollout st1, rewards = r_rollout st1,
                      discounts = d_rollout st1, actions = a_rollout st1 @ [mv],
                      terminals = t_rollout st1\<rparr>)],
                 stdout := stdout st1 @
                   [EndOfRollout i (num_episodes args),
                    FileWillBeSavedTo
                      (join (thread_dir args) (''rollout_'' @ str i @ ''.npz''))]\<rparr>" by simp
    have "files st' = files st @
        [(rollout_file args i,
          \<lparr>observations = s_rollout st @ [frame], rewards = r_rollout st @ [reward ts],
           discounts = d_rollout st @ [discount ts], actions = a_rollout st @ [mv, mv],
           terminals = t_rollout st @ [step_type ts]\<rparr>)]"
      unfolding k s1 by simp
    with u g f m assms(5-9) show ?thesis by auto
  qed
qed

theorem terminal_action_appended_twice_witness:
  "\<exists>st' unused.
     loop_body (fake_library 1000 example_spec) example_args 0 (fake_state 999) =
       Inr (True, st') \<and>
     step (example_agent\<lparr>self_scores := [0], self_random := 2000\<rparr>)
       \<lparr>step_type = LAST, reward = Some 0, discount = Some 1,
        observation = (\<lambda>c. if c = ''WORLD.RGB'' then Some (Suc 999) else None)\<rparr> =
       Inr (unused, agent st') \<and>
     (\<exists>arc. files st' = [(rollout_file example_args 0, arc)] \<and>
        length (observations arc) = 1000 \<and> length (rewards arc) = 1000 \<and>
        length (discounts arc) = 1000 \<and> length (terminals arc) = 1000 \<and>
        length (actions arc) = 1001 \<and>
        actions arc = replicate 999 (IntVal 0) @ [IntVal 3, IntVal 3])"
proof -
  let ?lib = "fake_library 1000 example_spec"
  let ?ts = "\<lparr>step_type = LAST, reward = Some (0::int), discount = Some (1::int),
        observation = (\<lambda>c. if c = ''WORLD.RGB'' then Some (Suc 999) else None)\<rparr>"
  have s: "step (agent (fake_state 999)) (timestep (fake_state 999)) =
      Inr ([''MOVE'' \<mapsto> IntVal 3, ''TURN'' \<mapsto> IntVal 0],
           example_agent\<lparr>self_scores := [0], self_random := 2000\<rparr>)"
    by (simp add: fake_state_def fake_step)
  have e: "env_step ?lib (env (fake_state 999)) [''MOVE'' \<mapsto> IntVal 3, ''TURN'' \<mapsto> IntVal 0] =
      (?ts, ([''WORLD.RGB''], 1000))"
    by (simp add: fake_state_def fake_library_def)
  have l: "timestep_last ?ts" by (simp add: timestep_last_def)
  from fake_loop_body_kept obtain st' where
    b: "loop_body ?lib example_args 0 (fake_state 999) = Inr (True, st')" by blast
  have n: "length (s_rollout (fake_state 999)) = 999" "length (r_rollout (fake_state 999)) = 999"
    "length (d_rollout (fake_state 999)) = 999" "length (a_rollout (fake_state 999)) = 999"
    "length (t_rollout (fake_state 999)) = 999"
    by (simp_all add: fake_state_def)
  from terminal_action_appended_twice [OF s e l b n] obtain unused arc where
    "step (example_agent\<lparr>self_scores := [0], self_random := 2000\<rparr>) ?ts =
       Inr (unused, agent st')"
    "files st' = files (fake_state 999) @ [(rollout_file example_args 0, arc)]"
    "length (observations arc) = Suc 999" "length (rewards arc) = Suc 999"
    "length (discounts arc) = Suc 999" "length (terminals arc) = Suc 999"
    "length (actions arc) = Suc (Suc 999)"
    "actions arc = a_rollout (fake_state 999) @ [IntVal 3, IntVal 3]"
    by auto
  with b show ?thesis by (auto simp: fake_state_def)
qed

text \<open>
  C4 as stated fails where it says that the value appended is that of the action
  sampled last: in the scripted run the extra call of \<open>step\<close> returns an action with
  \<open>MOVE = 0\<close>, and the archive ends with the value 3 of the action applied before,
  twice.
\<close>

theorem extra_sample_not_recorded:
  "map_sum id
     (\<lambda>(action, st1).
        (action ''MOVE'',
         map_sum id (\<lambda>(unused, ag). unused ''MOVE'') (step (agent st1) (timestep st1))))
     (record_step (fake_library 1000 example_spec) (fake_state 999)) =
     Inr (Some (IntVal 3), Inr (Some (IntVal 0))) \<and>
   map_sum id
     (\<lambda>(enough_data, st').
        (enough_data,
         map (\<lambda>(file, arc). (length (actions arc), drop 999 (actions arc))) (files st')))
     (loop_body (fake_library 1000 example_spec) example_args 0 (fake_state 999)) =
     Inr (True, [(1001, [IntVal 3, IntVal 3])])"
  unfolding loop_body_def fake_record_step
  by (simp add: timestep_last_def terminal_step_def fake_step fake_state_def Let_def)

text \<open>
  The hypothesis on the lengths holds throughout: the lists start empty, a pass that
  goes on leaves them of equal length, and so every archive that the loop writes has
  four arrays of one length, at least 1000, and an actions array one entry longer.
\<close>

lemma loop_body_aligned:
  assumes "aligned st" and "loop_body lib args i st = Inr (False, st')"
  shows "aligned st' \<and> files st' = files st"
proof -
  from loop_body_cases [OF assms(2)] obtain action st1 where
    r: "record_step lib st = Inr (action, st1)" and
    c: "if timestep_last (timestep st1)
        then terminal_step lib args i action st1 = Inr (False, st')
        else st' = st1" by auto
  from record_step_Inr [OF r] assms(1) have a1: "aligned st1" and f1: "files st1 = files st"
    by (auto simp: aligned_def)
  show ?thesis
  proof (cases "timestep_last (timestep st1)")
    case True
    with c have "terminal_step lib args i action st1 = Inr (False, st')" by simp
    from terminal_step_Inr [OF this] f1 show ?thesis
      by (auto simp: aligned_def split: if_splits)
  next
    case False
    with c a1 f1 show ?thesis by simp
  qed
qed

lemma loop_body_kept_archive:
  assumes "aligned st" and "loop_body lib args i st = Inr (True, st')"
  shows "\<exists>arc. files st' = files st @ [(rollout_file args i, arc)] \<and>
     1000 \<le> length (observations arc) \<and>
     length (rewards arc) = length (observations arc) \<and>
     length (discounts arc) = length (observations arc) \<and>
     length (terminals arc) = length (observations arc) \<and>
     length (actions arc) = Suc (length (observations arc))"
proof -
  from loop_body_cases [OF assms(2)] obtain action st1 where
    r: "record_step lib st = Inr (action, st1)" and
    t: "terminal_step lib args i action st1 = Inr (True, st')"
    by (auto split: if_splits)
  from record_step_Inr [OF r] assms(1) have a1: "aligned st1" and f1: "files st1 = files st"
    by (auto simp: aligned_def)
  from terminal_step_Inr [OF t] a1 f1 show ?thesis
    by (auto simp: aligned_def split: if_splits)
qed

lemma while_kept_archive:
  "aligned st \<Longrightarrow> while_not_enough_data lib args i fuel st = Some (Inr st') \<Longrightarrow>
   \<exists>arc. files st' = files st @ [(rollout_file args i, arc)] \<and>
     1000 \<le> length (observations arc) \<and>
     length (rewards arc) = length (observations arc) \<and>
     length (discounts arc) = length (observations arc) \<and>
     length (terminals arc) = length (observations arc) \<and>
     length (actions arc) = Suc (length (observations arc))"
proof (induction fuel arbitrary: st)
  case 0
  then show ?case by simp
next
  case (Suc fuel)
  from Suc.prems(2) obtain enough_data st1 where
    b: "loop_body lib args i st = Inr (enough_data, st1)"
    by (auto split: sum.splits)
  show ?case
  proof (cases enough_data)
    case True
    with b Suc.prems(2) have "loop_body lib args i st = Inr (True, st')" by simp
    from loop_body_kept_archive [OF Suc.prems(1) this] show ?thesis .
  next
    case False
    with b Suc.prems(2) have w: "while_not_enough_data lib args i fuel st1 = Some (Inr st')"
      by simp
    from False b loop_body_aligned [OF Suc.prems(1)] have "aligned st1" "files st1 = files st"
      by auto
    with Suc.IH [OF _ w] show ?thesis by simp
  qed
qed

lemma record_step_buffer:
  "record_step lib
     (st\<lparr>s_rollout := s, r_rollout := r, d_rollout := d, a_rollout := a, t_rollout := t\<rparr>) =
   (case record_step lib st of
      Inl err \<Rightarrow> Inl err
    | Inr (action, st1) \<Rightarrow>
        Inr (action,
             st1\<lparr>s_rollout := s @ [last (s_rollout st1)],
                 r_rollout := r @ [last (r_rollout st1)],
                 d_rollout := d @ [last (d_rollout st1)],
                 a_rollout := a @ [last (a_rollout st1)],
                 t_rollout := t @ [last (t_rollout st1)]\<rparr>))"
  by (simp add: record_step_def split: sum.splits prod.splits option.splits)

text \<open>
  C8. When a pass of the loop ends in a discard, the five lists are empty afterwards
  and no file has been written. The state that the loop goes on with does not depend
  on what the discarded buffer held: had the buffer held any other entries, few enough
  to be discarded as well, the pass would have left the very same state, and so
  everything the process does afterwards, every archive it writes included, is the same.
\<close>

theorem discarded_buffer_leaves_no_trace:
  assumes "record_step lib st = Inr (action, st1)"
    and "timestep_last (timestep st1)"
    and "loop_body lib args i st = Inr (False, st')"
  shows "s_rollout st' = [] \<and> r_rollout st' = [] \<and> d_rollout st' = [] \<and>
     a_rollout st' = [] \<and> t_rollout st' = [] \<and> files st' = files st \<and>
     (\<forall>s r d a t. length a + 2 \<le> 1000 \<longrightarrow>
        loop_body lib args i
          (st\<lparr>s_rollout := s, r_rollout := r, d_rollout := d, a_rollout := a,
              t_rollout := t\<rparr>) = Inr (False, st') \<and>
        while_not_enough_data lib args i (Suc fuel)
          (st\<lparr>s_rollout := s, r_rollout := r, d_rollout := d, a_rollout := a,
              t_rollout := t\<rparr>) = while_not_enough_data lib args i fuel st')"
proof -
  from assms have t: "terminal_step lib args i action st1 = Inr (False, st')"
    by (simp add: loop_body_def)
  from record_step_world [OF assms(1)] have f1: "files st1 = files st" by simp
  from terminal_step_Inr [OF t] obtain unused ag mv where
    u: "step (agent st1) (timestep st1) = Inr (unused, ag)" and
    m: "action ''MOVE'' = Some mv" and
    s': "st' = st1\<lparr>agent := ag, env := snd (env_reset lib (env st1)),
                 timestep := fst (env_reset lib (env st1)),
                 s_rollout := [], r_rollout := [], d_rollout := [],
                 a_rollout := [], t_rollout := []\<rparr>"
    by (auto split: if_splits)
  have e: "s_rollout st' = [] \<and> r_rollout st' = [] \<and> d_rollout st' = [] \<and>
     a_rollout st' = [] \<and> t_rollout st' = [] \<and> files st' = files st"
    using s' f1 by simp
  have b: "loop_body lib args i
          (st\<lparr>s_rollout := s, r_rollout := r, d_rollout := d, a_rollout := a,
              t_rollout := t\<rparr>) = Inr (False, st')"
    if "length a + 2 \<le> 1000" for s r d a t
    using that assms(1,2) u m s'
    by (simp add: loop_body_def record_step_buffer terminal_step_def Let_def
        split: prod.splits)
  from e b show ?thesis by simp
qed

theorem discarded_buffer_leaves_no_trace_witness:
  "\<exists>st'. loop_body (fake_library 6 example_spec) example_args 0 (fake_state 5) =
       Inr (False, st') \<and>
     s_rollout st' = [] \<and> r_rollout st' = [] \<and> d_rollout st' = [] \<and>
     a_rollout st' = [] \<and> t_rollout st' = [] \<and> files st' = [] \<and>
     loop_body (fake_library 6 example_spec) example_args 0
       ((fake_state 5)\<lparr>s_rollout := [7], r_rollout := [None], d_rollout := [None],
                        a_rollout := [IntVal 9], t_rollout := [FIRST]\<rparr>) =
       Inr (False, st')"
proof -
  let ?lib = "fake_library 6 example_spec"
  obtain action st1 where r: "record_step ?lib (fake_state 5) = Inr (action, st1)"
    unfolding fake_record_step by blast
  have l: "timestep_last (timestep st1)"
    using fake_record_step_last [of 5 action st1] r by simp
  from fake_loop_body_discarded obtain st' where
    b: "loop_body ?lib example_args 0 (fake_state 5) = Inr (False, st')" by blast
  from discarded_buffer_leaves_no_trace [OF r l b, of 0] b show ?thesis
    by (auto simp: fake_state_def)
qed

lemma terminal_step_flag:
  "terminal_step lib (args\<lparr>observation := flag\<rparr>) i action st =
   terminal_step lib args i action st"
  by (simp add: terminal_step_def thread_dir_def rollout_file_def Let_def
      split: sum.splits option.splits prod.splits)

text \<open>
  C9. In every pass of the loop the frame appended to the observation list, and so the
  frame persisted in the archive, is the entry \<open>'WORLD.RGB'\<close> of the timestep that
  \<open>env.step\<close> returned, whatever the value of \<open>--observation\<close>: the pass is the same
  for every value of the flag, which is read only to name the channel that the
  environment is created with.
\<close>

theorem observation_is_world_rgb:
  assumes "loop_body lib (args\<lparr>observation := flag\<rparr>) i st = Inr (enough_data, st')"
  shows "\<exists>action ag ts e frame.
     step (agent st) (timestep st) = Inr (action, ag) \<and>
     env_step lib (env st) action = (ts, e) \<and>
     timestep.observation ts ''WORLD.RGB'' = Some frame \<and>
     (if enough_data
      then \<exists>arc. files st' = files st @ [(rollout_file args i, arc)] \<and>
             observations arc = s_rollout st @ [frame]
      else s_rollout st' = s_rollout st @ [frame] \<or> s_rollout st' = []) \<and>
     loop_body lib args i st = Inr (enough_data, st') \<and>
     create_environment lib (args\<lparr>observation := flag\<rparr>) =
       Environment lib ((settings args)(''levelName'' \<mapsto> JString (level_name args)))
         [flag] (env_seed args)"
proof -
  have same: "loop_body lib (args\<lparr>observation := flag\<rparr>) i st = loop_body lib args i st"
    by (simp add: loop_body_def terminal_step_flag split: sum.splits prod.splits)
  with assms have b: "loop_body lib args i st = Inr (enough_data, st')" by simp
  from loop_body_cases [OF b] obtain action st1 where
    r: "record_step lib st = Inr (action, st1)" and
    c: "if timestep_last (timestep st1)
        then terminal_step lib args i action st1 = Inr (enough_data, st')
        else \<not> enough_data \<and> st' = st1" by blast
  from record_step_Inr [OF r] obtain ag ts e frame where
    s: "step (agent st) (timestep st) = Inr (action, ag)" and
    v: "env_step lib (env st) action = (ts, e)" and
    f: "timestep.observation ts ''WORLD.RGB'' = Some frame" and
    s1: "s_rollout st1 = s_rollout st @ [frame]" "files st1 = files st"
    by auto
  have k: "if enough_data
      then \<exists>arc. files st' = files st @ [(rollout_file args i, arc)] \<and>
             observations arc = s_rollout st @ [frame]
      else s_rollout st' = s_rollout st @ [frame] \<or> s_rollout st' = []"
  proof (cases "timestep_last (timestep st1)")
    case True
    with c have "terminal_step lib args i action st1 = Inr (enough_data, st')" by simp
    from terminal_step_Inr [OF this] s1 show ?thesis by (auto split: if_splits)
  next
    case False
    with c s1 show ?thesis by simp
  qed
  have "create_environment lib (args\<lparr>observation := flag\<rparr>) =
       Environment lib ((settings args)(''levelName'' \<mapsto> JString (level_name args)))
         [flag] (env_seed args)"
    by (simp add: create_environment_def)
  with s v f k b show ?thesis by blast
qed

theorem observation_is_world_rgb_witness:
  "\<exists>st'. loop_body (fake_library 1000 example_spec)
       (example_args\<lparr>observation := ''AVATAR''\<rparr>) 0 (fake_state 999) = Inr (True, st') \<and>
     loop_body (fake_library 1000 example_spec) example_args 0 (fake_state 999) =
       Inr (True, st') \<and>
     (\<exists>arc. files st' = [(rollout_file example_args 0, arc)] \<and>
        observations arc = replicate 999 0 @ [1000])"
proof -
  let ?lib = "fake_library 1000 example_spec"
  from fake_loop_body_kept obtain st' where
    b: "loop_body ?lib (example_args\<lparr>observation := ''AVATAR''\<rparr>) 0 (fake_state 999) =
        Inr (True, st')" by blast
  have e: "env_step ?lib (env (fake_state 999)) a =
      (\<lparr>step_type = LAST, reward = Some 0, discount = Some 1,
        observation = (\<lambda>c. if c \<in> set [''WORLD.RGB''] then Some (Suc 999) else None)\<rparr>,
       ([''WORLD.RGB''], Suc 999))" for a
    by (simp add: fake_state_def fake_library_def)
  from observation_is_world_rgb [OF b] obtain frame arc where
    "timestep.observation
       \<lparr>step_type = LAST, reward = Some (0::int), discount = Some (1::int),
        observation = (\<lambda>c. if c \<in> set [''WORLD.RGB''] then Some (Suc 999) else None)\<rparr>
       ''WORLD.RGB'' = Some frame"
    "files st' = files (fake_state 999) @ [(rollout_file example_args 0, arc)]"
    "observations arc = s_rollout (fake_state 999) @ [frame]"
    "loop_body ?lib example_args 0 (fake_state 999) = Inr (True, st')"
    unfolding e by auto
  with b show ?thesis by (auto simp: fake_state_def)
qed

text \<open>
  In the scripted environment, which exposes only the channels it was created with,
  a run with another observation flag stops at its first step on the missing key.
\<close>

lemma other_observation_flag_raises:
  "map_option (map_sum id (\<lambda>w. length (files w)))
     (run (fake_library 3 example_spec) (example_args\<lparr>observation := ''AVATAR''\<rparr>) 1) =
   Some (Inl (KeyError ''WORLD.RGB''))"
  by code_simp

section \<open>The scripted run returns\<close>

text \<open>
  In the second scripted environment with episodes of 1000 steps the \<open>while\<close> loop
  comes to its end: 999 passes that go on and one that ends the episode and keeps it.
\<close>

lemma seeded_pass:
  fixes st :: "(int \<times> nat, nat, nat, int) state"
  assumes "env st = (seed, k)" and "length (a_rollout st) = k"
    and "self_actions (agent st) = fst (channels (seeded_library n example_spec) example_spec)"
    and "reward (timestep st) = None \<or> reward (timestep st) = Some 0"
  shows "\<exists>action st1. record_step (seeded_library n example_spec) st = Inr (action, st1) \<and>
     action ''MOVE'' \<noteq> None \<and> env st1 = (seed, Suc k) \<and> length (a_rollout st1) = Suc k \<and>
     self_actions (agent st1) = fst (channels (seeded_library n example_spec) example_spec) \<and>
     reward (timestep st1) = Some 0 \<and> timestep_last (timestep st1) = (n \<le> Suc k)"
  using assms
  by (auto simp: record_step_def step_def update_scores_def example_spec_def
      make_int32_distribution_def seeded_library_def timestep_last_def int32_def)

lemma kept_after_1000:
  fixes st :: "('e, 'r, 'o, int) state"
  assumes "step (agent st) (timestep st) = Inr (unused, ag)"
    and "action ''MOVE'' \<noteq> None" and "1000 \<le> length (a_rollout st)"
  shows "\<exists>st'. terminal_step lib args i action st = Inr (True, st')"
  using assms by (auto simp: terminal_step_def Let_def)

lemma seeded_extra_step:
  fixes st :: "(int \<times> nat, nat, nat, int) state"
  assumes "self_actions (agent st) = fst (channels (seeded_library n example_spec) example_spec)"
    and "reward (timestep st) = Some 0"
  shows "\<exists>unused ag. step (agent st) (timestep st) = Inr (unused, ag)"
  using assms
  by (simp add: step_def update_scores_def example_spec_def make_int32_distribution_def
      seeded_library_def int32_def)

lemma seeded_while:
  fixes st :: "(int \<times> nat, nat, nat, int) state"
  shows "env st = (seed, k) \<Longrightarrow> length (a_rollout st) = k \<Longrightarrow>
     self_actions (agent st) =
       fst (channels (seeded_library 1000 example_spec) example_spec) \<Longrightarrow>
     reward (timestep st) = None \<or> reward (timestep st) = Some 0 \<Longrightarrow>
     k + Suc d = 1000 \<Longrightarrow>
     (\<exists>st'. while_not_enough_data (seeded_library 1000 example_spec) args i (Suc d) st =
        Some (Inr st')) \<and>
     pass_ends (seeded_library 1000 example_spec) args i (Suc d) st =
       Some (replicate d False @ [True])"
proof (induction d arbitrary: k st)
  case 0
  let ?lib = "seeded_library 1000 example_spec"
  from seeded_pass [OF 0(1-4)] obtain action st1 where
    r: "record_step ?lib st = Inr (action, st1)" and
    p: "action ''MOVE'' \<noteq> None" "length (a_rollout st1) = Suc k"
       "self_actions (agent st1) = fst (channels ?lib example_spec)"
       "reward (timestep st1) = Some 0" "timestep_last (timestep st1) = (1000 \<le> Suc k)"
    by blast
  from 0(5) p have l: "timestep_last (timestep st1)" "1000 \<le> length (a_rollout st1)" by simp_all
  from seeded_extra_step [OF p(3,4)] obtain unused ag where
    u: "step (agent st1) (timestep st1) = Inr (unused, ag)" by blast
  from kept_after_1000 [where lib = ?lib and args = args and i = i and action = action
      and st = st1, OF u p(1) l(2)] obtain st' where
    "terminal_step ?lib args i action st1 = Inr (True, st')" by blast
  with r l(1) have b: "loop_body ?lib args i st = Inr (True, st')" by (simp add: loop_body_def)
  with r l(1) show ?case by simp
next
  case (Suc d)
  let ?lib = "seeded_library 1000 example_spec"
  from seeded_pass [OF Suc.prems(1-4)] obtain action st1 where
    r: "record_step ?lib st = Inr (action, st1)" and
    p: "env st1 = (seed, Suc k)" "length (a_rollout st1) = Suc k"
       "self_actions (agent st1) = fst (channels ?lib example_spec)"
       "reward (timestep st1) = Some 0" "timestep_last (timestep st1) = (1000 \<le> Suc k)"
    by blast
  from Suc.prems(5) p(5) have l: "\<not> timestep_last (timestep st1)" by simp
  with r have b: "loop_body ?lib args i st = Inr (False, st1)" by (simp add: loop_body_def)
  from Suc.prems(5) have "Suc k + Suc d = 1000" by simp
  from Suc.IH [OF p(1) p(2) p(3) _ this] p(4) obtain st' where
    w: "while_not_enough_data ?lib args i (Suc d) st1 = Some (Inr st')" and
    e: "pass_ends ?lib args i (Suc d) st1 = Some (replicate d False @ [True])"
    by auto
  from r b l w e show ?case by simp
qed

lemma begin_episode_agent: "agent (begin_episode lib w) = agent w"
  by (simp add: begin_episode_def world.defs split: prod.splits)

lemma begin_episode_fields:
  "env (begin_episode lib w) = snd (env_reset lib (env w))"
  "files (begin_episode lib w) = files w"
  "a_rollout (begin_episode lib w) = []"
  by (simp_all add: begin_episode_def world.defs split: prod.splits)

lemma initial_world_actions:
  "self_actions (agent (initial_world lib args)) =
   fst (channels lib (env_action_spec lib (create_environment lib args)))"
  by (simp add: initial_world_def init_def Let_def split: prod.splits)

lemma initial_world_fields:
  "env (initial_world lib args) = create_environment lib args"
  "files (initial_world lib args) = []"
  "self_random (agent (initial_world lib args)) = RandomState lib (agent_seed args)"
  by (simp_all add: initial_world_def init_def Let_def split: prod.splits)

lemma seeded_run_returns:
  assumes "num_episodes args = 1"
  shows "(\<exists>w. run (seeded_library 1000 example_spec) args 1000 = Some (Inr w)) \<and>
     run_pass_ends (seeded_library 1000 example_spec) args 1000 =
       Some [replicate 999 False @ [True]]"
proof -
  let ?lib = "seeded_library 1000 example_spec"
  let ?st0 = "begin_episode ?lib (initial_world ?lib args)"
  have e: "env ?st0 = (env_seed args, 0)"
    by (simp add: begin_episode_fields initial_world_fields create_environment_def
        seeded_library_def)
  have a: "self_actions (agent ?st0) = fst (channels ?lib example_spec)"
    by (simp add: begin_episode_agent initial_world_actions) (simp add: seeded_library_def)
  have t: "reward (timestep ?st0) = None \<or> reward (timestep ?st0) = Some 0"
    by (simp add: begin_episode_def world.defs seeded_library_def split: prod.splits)
  have "(\<exists>st'. while_not_enough_data ?lib args 0 (Suc 999) ?st0 = Some (Inr st')) \<and>
     pass_ends ?lib args 0 (Suc 999) ?st0 = Some (replicate 999 False @ [True])"
    by (rule seeded_while [OF e _ a t]) (simp_all add: begin_episode_fields)
  then obtain st' where "while_not_enough_data ?lib args 0 1000 ?st0 = Some (Inr st')"
    and "pass_ends ?lib args 0 1000 ?st0 = Some (replicate 999 False @ [True])"
    by auto
  then show ?thesis
    using assms by (simp add: run_def run_pass_ends_def py_range_def episode_def)
qed

section \<open>The recorded action channel\<close>

lemma comprehension_dom:
  "comprehension acts r m = Some (m', r') \<Longrightarrow> dom m' = dom m \<union> fst ` set acts"
proof (induction acts arbitrary: r m)
  case Nil
  then show ?case by simp
next
  case (Cons p rest)
  obtain n gen where p: "p = (n, gen)" by (cases p)
  from Cons.prems obtain v r1 where
    "comprehension rest r1 (m(n \<mapsto> v)) = Some (m', r')"
    unfolding p by (auto split: option.splits)
  from Cons.IH [OF this] show ?case unfolding p by auto
qed

lemma step_dom:
  "step self ts = Inr (action, self') \<Longrightarrow> dom action = fst ` set (self_actions self)"
proof -
  assume "step self ts = Inr (action, self')"
  from step_Inr [OF this] have
    "comprehension (self_actions self) (self_random self) Map.empty =
       Some (action, self_random self')"
    by blast
  from comprehension_dom [OF this] show ?thesis by simp
qed

lemma step_Inl: "step self ts = Inl err \<Longrightarrow> err = IndexError \<or> err = ValueError"
  by (auto simp: step_def update_scores_def split: sum.splits option.splits if_splits)

lemma record_step_Inl:
  assumes "record_step lib st = Inl err"
  shows "err = IndexError \<or> err = ValueError \<or> err = KeyError ''WORLD.RGB'' \<or>
     (err = KeyError ''MOVE'' \<and> ''MOVE'' \<notin> fst ` set (self_actions (agent st)))"
proof (cases "step (agent st) (timestep st)")
  case (Inl e)
  with assms step_Inl [OF Inl] show ?thesis by (auto simp: record_step_def)
next
  case (Inr p)
  obtain action ag where p: "p = (action, ag)" by (cases p)
  have "action ''MOVE'' = None \<Longrightarrow> ''MOVE'' \<notin> fst ` set (self_actions (agent st))"
    unfolding step_dom [OF Inr [unfolded p], symmetric] by (simp add: domIff)
  with assms Inr p show ?thesis
    by (auto simp: record_step_def split: prod.splits option.splits)
qed

lemma record_step_no_move:
  assumes "''MOVE'' \<notin> fst ` set (self_actions (agent st))"
  shows "\<exists>err. record_step lib st = Inl err"
proof (cases "record_step lib st")
  case (Inl err)
  then show ?thesis by blast
next
  case (Inr p)
  obtain action st' where "p = (action, st')" by (cases p)
  with Inr have r: "record_step lib st = Inr (action, st')" by simp
  from record_step_Inr [OF r] obtain ag mv where
    "step (agent st) (timestep st) = Inr (action, ag)" "action ''MOVE'' = Some mv" by blast
  with step_dom [of "agent st" "timestep st" action ag] assms show ?thesis
    by (metis domI)
qed

lemma record_step_key_error:
  assumes "''MOVE'' \<notin> fst ` set (self_actions (agent st))"
    and "step (agent st) (timestep st) = Inr (action, ag)"
    and "timestep.observation (fst (env_step lib (env st) action)) ''WORLD.RGB'' \<noteq> None"
  shows "record_step lib st = Inl (KeyError ''MOVE'')"
proof -
  from assms(1) have "action ''MOVE'' = None"
    unfolding step_dom [OF assms(2), symmetric] by (simp add: domIff)
  with assms(2,3) show ?thesis
    by (auto simp: record_step_def split: prod.splits option.splits)
qed

lemma terminal_step_Inl:
  "terminal_step lib args i action st = Inl err \<Longrightarrow> action ''MOVE'' \<noteq> None \<Longrightarrow>
   err = IndexError \<or> err = ValueError"
  by (auto simp: terminal_step_def Let_def dest: step_Inl
      split: sum.splits option.splits prod.splits if_splits)

lemma loop_body_Inl:
  assumes "loop_body lib args i st = Inl err"
  shows "err = IndexError \<or> err = ValueError \<or> err = KeyError ''WORLD.RGB'' \<or>
     (err = KeyError ''MOVE'' \<and> ''MOVE'' \<notin> fst ` set (self_actions (agent st)))"
proof (cases "record_step lib st")
  case (Inl e)
  with assms have "e = err" by (simp add: loop_body_def)
  with record_step_Inl [OF Inl] show ?thesis by simp
next
  case (Inr p)
  obtain action st1 where p: "p = (action, st1)" by (cases p)
  from Inr p record_step_Inr [of lib st action st1] have m: "action ''MOVE'' \<noteq> None" by auto
  from assms Inr p have "terminal_step lib args i action st1 = Inl err"
    by (auto simp: loop_body_def split: if_splits)
  from terminal_step_Inl [OF this m] show ?thesis by blast
qed

lemma loop_body_actions:
  assumes "loop_body lib args i st = Inr (enough_data, st')"
  shows "self_actions (agent st') = self_actions (agent st)"
proof -
  from loop_body_cases [OF assms] obtain action st1 where
    r: "record_step lib st = Inr (action, st1)" and
    c: "if timestep_last (timestep st1)
        then terminal_step lib args i action st1 = Inr (enough_data, st')
        else \<not> enough_data \<and> st' = st1" by blast
  from record_step_Inr [OF r] have a1: "self_actions (agent st1) = self_actions (agent st)"
    by (auto dest: step_actions)
  show ?thesis
  proof (cases "timestep_last (timestep st1)")
    case True
    with c have "terminal_step lib args i action st1 = Inr (enough_data, st')" by simp
    from terminal_step_Inr [OF this] a1 show ?thesis
      by (auto dest: step_actions split: if_splits)
  next
    case False
    with c a1 show ?thesis by simp
  qed
qed

lemma while_actions:
  "while_not_enough_data lib args i fuel st = Some (Inr st') \<Longrightarrow>
   self_actions (agent st') = self_actions (agent st)"
proof (induction fuel arbitrary: st)
  case 0
  then show ?case by simp
next
  case (Suc fuel)
  from Suc.prems obtain enough_data st1 where
    b: "loop_body lib args i st = Inr (enough_data, st1)"
    by (auto split: sum.splits)
  from loop_body_actions [OF b] have a: "self_actions (agent st1) = self_actions (agent st)" .
  show ?case
  proof (cases enough_data)
    case True
    with b Suc.prems a show ?thesis by simp
  next
    case False
    with b Suc.prems have "while_not_enough_data lib args i fuel st1 = Some (Inr st')" by simp
    from Suc.IH [OF this] a show ?thesis by simp
  qed
qed

lemma while_Inl:
  "while_not_enough_data lib args i fuel st = Some (Inl err) \<Longrightarrow>
   err = IndexError \<or> err = ValueError \<or> err = KeyError ''WORLD.RGB'' \<or>
     (err = KeyError ''MOVE'' \<and> ''MOVE'' \<notin> fst ` set (self_actions (agent st)))"
proof (induction fuel arbitrary: st)
  case 0
  then show ?case by simp
next
  case (Suc fuel)
  show ?case
  proof (cases "loop_body lib args i st")
    case (Inl e)
    with Suc.prems have "e = err" by simp
    with loop_body_Inl [OF Inl] show ?thesis by simp
  next
    case (Inr p)
    obtain enough_data st1 where p: "p = (enough_data, st1)" by (cases p)
    from Inr p Suc.prems have "while_not_enough_data lib args i fuel st1 = Some (Inl err)"
      by (auto split: if_splits)
    from Suc.IH [OF this] loop_body_actions [OF Inr [unfolded p]] show ?thesis by simp
  qed
qed

lemma truncate_agent: "agent (world.truncate st) = agent st"
  by (simp add: world.defs)

lemma episode_actions:
  "episode lib args fuel i w = Some (Inr w') \<Longrightarrow>
   self_actions (agent w') = self_actions (agent w)"
  by (auto simp: episode_def begin_episode_agent truncate_agent dest!: while_actions
      split: option.splits sum.splits)

lemma episode_Inl:
  "episode lib args fuel i w = Some (Inl err) \<Longrightarrow>
   err = IndexError \<or> err = ValueError \<or> err = KeyError ''WORLD.RGB'' \<or>
     (err = KeyError ''MOVE'' \<and> ''MOVE'' \<notin> fst ` set (self_actions (agent w)))"
  by (auto simp: episode_def begin_episode_agent dest!: while_Inl
      split: option.splits sum.splits)

lemma for_episodes_Inl:
  "for_episodes lib args fuel is w = Some (Inl err) \<Longrightarrow>
   err = IndexError \<or> err = ValueError \<or> err = KeyError ''WORLD.RGB'' \<or>
     (err = KeyError ''MOVE'' \<and> ''MOVE'' \<notin> fst ` set (self_actions (agent w)))"
proof (induction "is" arbitrary: w)
  case Nil
  then show ?case by simp
next
  case (Cons i rest)
  show ?case
  proof (cases "episode lib args fuel i w")
    case None
    with Cons.prems show ?thesis by simp
  next
    case (Some res)
    show ?thesis
    proof (cases res)
      case (Inl e)
      with Some Cons.prems have "e = err" by simp
      with Some Inl episode_Inl [of lib args fuel i w err] show ?thesis by simp
    next
      case (Inr w1)
      with Some Cons.prems have "for_episodes lib args fuel rest w1 = Some (Inl err)" by simp
      from Cons.IH [OF this] episode_actions [of lib args fuel i w w1] Some Inr
      show ?thesis by simp
    qed
  qed
qed

lemma py_range_pos: "0 < n \<Longrightarrow> py_range n = 0 # map int [1..<nat n]"
  by (simp add: py_range_def upt_conv_Cons)

lemma run_first_error:
  "record_step lib (begin_episode lib (initial_world lib args)) = Inl err \<Longrightarrow>
   0 < num_episodes args \<Longrightarrow> run lib args (Suc fuel) = Some (Inl err)"
  by (simp add: run_def py_range_pos episode_def loop_body_def)

lemma run_Inl:
  "run lib args fuel = Some (Inl err) \<Longrightarrow>
   for_episodes lib args fuel (py_range (num_episodes args)) (initial_world lib args) =
     Some (Inl err)"
  by (auto simp: run_def split: option.splits sum.splits)

text \<open>
  C10. Each pass takes from the sampled action the value of the key \<open>'MOVE'\<close> and
  nothing else: a pass that goes on has appended that value to the actions list (or
  has emptied the list in a discard), and a pass that keeps the episode has written an
  archive whose actions array is the list so far followed by that value twice. When
  the environment's action spec gives no sampler for a channel named \<open>MOVE\<close>, a run
  of at least one episode aborts in its first pass, and with \<open>KeyError 'MOVE'\<close> once
  the agent's step and the lookup of the frame before it have gone through. When there
  is such a sampler, no run ever ends in \<open>KeyError 'MOVE'\<close>.
\<close>

theorem move_channel_recorded:
  "(loop_body lib args i st = Inr (enough_data, st') \<longrightarrow>
      (\<exists>action ag mv. step (agent st) (timestep st) = Inr (action, ag) \<and>
         action ''MOVE'' = Some mv \<and>
         (if enough_data
          then \<exists>arc. files st' = files st @ [(rollout_file args i, arc)] \<and>
                 actions arc = a_rollout st @ [mv, mv]
          else files st' = files st \<and>
               (a_rollout st' = a_rollout st @ [mv] \<or> a_rollout st' = [])))) \<and>
   (''MOVE'' \<notin> fst ` set (fst (channels lib (env_action_spec lib (create_environment lib args))))
      \<and> 0 < num_episodes args \<longrightarrow>
      (\<exists>err. run lib args (Suc fuel) = Some (Inl err)) \<and>
      (step (agent (begin_episode lib (initial_world lib args)))
         (timestep (begin_episode lib (initial_world lib args))) = Inr (action0, ag0) \<and>
       timestep.observation
         (fst (env_step lib (env (begin_episode lib (initial_world lib args))) action0))
         ''WORLD.RGB'' \<noteq> None \<longrightarrow>
       run lib args (Suc fuel) = Some (Inl (KeyError ''MOVE'')))) \<and>
   (''MOVE'' \<in> fst ` set (fst (channels lib (env_action_spec lib (create_environment lib args))))
      \<longrightarrow> run lib args fuel \<noteq> Some (Inl (KeyError ''MOVE'')))"
proof (intro conjI impI)
  assume b: "loop_body lib args i st = Inr (enough_data, st')"
  from loop_body_cases [OF b] obtain action st1 where
    r: "record_step lib st = Inr (action, st1)" and
    c: "if timestep_last (timestep st1)
        then terminal_step lib args i action st1 = Inr (enough_data, st')
        else \<not> enough_data \<and> st' = st1" by blast
  from record_step_Inr [OF r] obtain ag mv where
    s: "step (agent st) (timestep st) = Inr (action, ag)" and
    m: "action ''MOVE'' = Some mv" and
    a1: "a_rollout st1 = a_rollout st @ [mv]" "files st1 = files st"
    by auto
  have "if enough_data
      then \<exists>arc. files st' = files st @ [(rollout_file args i, arc)] \<and>
             actions arc = a_rollout st @ [mv, mv]
      else files st' = files st \<and>
           (a_rollout st' = a_rollout st @ [mv] \<or> a_rollout st' = [])"
  proof (cases "timestep_last (timestep st1)")
    case True
    with c have "terminal_step lib args i action st1 = Inr (enough_data, st')" by simp
    from terminal_step_Inr [OF this] m a1 show ?thesis by (auto split: if_splits)
  next
    case False
    with c a1 show ?thesis by simp
  qed
  with s m show "\<exists>action ag mv. step (agent st) (timestep st) = Inr (action, ag) \<and>
         action ''MOVE'' = Some mv \<and>
         (if enough_data
          then \<exists>arc. files st' = files st @ [(rollout_file args i, arc)] \<and>
                 actions arc = a_rollout st @ [mv, mv]
          else files st' = files st \<and>
               (a_rollout st' = a_rollout st @ [mv] \<or> a_rollout st' = []))"
    by blast
next
  let ?st0 = "begin_episode lib (initial_world lib args)"
  assume a: "''MOVE'' \<notin> fst ` set (fst (channels lib (env_action_spec lib (create_environment lib args))))
      \<and> 0 < num_episodes args"
  then have n: "''MOVE'' \<notin> fst ` set (self_actions (agent ?st0))"
    by (simp add: begin_episode_agent initial_world_actions)
  from record_step_no_move [OF n] obtain err where "record_step lib ?st0 = Inl err" ..
  from run_first_error [OF this] a show "\<exists>err. run lib args (Suc fuel) = Some (Inl err)"
    by blast
next
  let ?st0 = "begin_episode lib (initial_world lib args)"
  assume a: "''MOVE'' \<notin> fst ` set (fst (channels lib (env_action_spec lib (create_environment lib args))))
      \<and> 0 < num_episodes args"
    and b: "step (agent ?st0) (timestep ?st0) = Inr (action0, ag0) \<and>
       timestep.observation (fst (env_step lib (env ?st0) action0)) ''WORLD.RGB'' \<noteq> None"
  from a have n: "''MOVE'' \<notin> fst ` set (self_actions (agent ?st0))"
    by (simp add: begin_episode_agent initial_world_actions)
  from b have "record_step lib ?st0 = Inl (KeyError ''MOVE'')"
    using record_step_key_error [OF n] by blast
  from run_first_error [OF this] a show "run lib args (Suc fuel) = Some (Inl (KeyError ''MOVE''))"
    by blast
next
  assume m: "''MOVE'' \<in> fst ` set (fst (channels lib (env_action_spec lib (create_environment lib args))))"
  show "run lib args fuel \<noteq> Some (Inl (KeyError ''MOVE''))"
  proof
    assume "run lib args fuel = Some (Inl (KeyError ''MOVE''))"
    from for_episodes_Inl [OF run_Inl [OF this]] m show False
      by (simp add: initial_world_actions)
  qed
qed

lemma fake_first_state:
  "begin_episode (fake_library n sp) (initial_world (fake_library n sp) example_args) =
     \<lparr>env = ([''WORLD.RGB''], 0),
      agent = fst (init (fake_library n sp) sp ''WORLD.RGB'' 0 1),
      dirs = [], files = [],
      stdout = snd (init (fake_library n sp) sp ''WORLD.RGB'' 0 1),
      timestep = \<lparr>step_type = FIRST, reward = None, discount = None,
                  observation = (\<lambda>c. if c \<in> set [''WORLD.RGB''] then Some 0 else None)\<rparr>,
      s_rollout = [], r_rollout = [], d_rollout = [], a_rollout = [], t_rollout = []\<rparr>"
  by (simp add: begin_episode_def initial_world_def create_environment_def example_args_def
      default_args_def fake_library_def world.defs Let_def split: prod.splits)

theorem move_channel_recorded_witness:
  "run (fake_library 3 no_move_spec) example_args (Suc 0) = Some (Inl (KeyError ''MOVE'')) \<and>
   (\<exists>w. run (seeded_library 1000 example_spec) example_args 1000 = Some (Inr w)) \<and>
   run (seeded_library 1000 example_spec) example_args 1000 \<noteq> Some (Inl (KeyError ''MOVE'')) \<and>
   (\<exists>st' arc.
      loop_body (fake_library 1000 example_spec) example_args 0 (fake_state 999) =
        Inr (True, st') \<and>
      files st' = [(rollout_file example_args 0, arc)] \<and>
      actions arc = replicate 999 (IntVal 0) @ [IntVal 3, IntVal 3])"
proof -
  let ?lib = "fake_library 3 no_move_spec"
  let ?st0 = "begin_episode ?lib (initial_world ?lib example_args)"
  have n: "''MOVE'' \<notin> fst ` set (fst (channels ?lib (env_action_spec ?lib (create_environment ?lib example_args))))
      \<and> 0 < num_episodes example_args"
    by (simp add: fake_library_def no_move_spec_def example_args_def default_args_def)
  have "\<exists>x. step (agent ?st0) (timestep ?st0) = Inr x"
    unfolding fake_first_state
    by (simp add: step_def update_scores_def init_def no_move_spec_def
        make_int32_distribution_def fake_library_def int32_def)
  then obtain action0 ag0 where s: "step (agent ?st0) (timestep ?st0) = Inr (action0, ag0)"
    by auto
  have o: "timestep.observation (fst (env_step ?lib (env ?st0) action0)) ''WORLD.RGB'' \<noteq> None"
    unfolding fake_first_state by (simp add: fake_library_def)
  from move_channel_recorded [where lib = ?lib and args = example_args and fuel = 0
      and ?action0.0 = action0 and ?ag0.0 = ag0] n s o
  have 1: "run ?lib example_args (Suc 0) = Some (Inl (KeyError ''MOVE''))" by blast
  let ?seeded = "seeded_library 1000 example_spec"
  have m: "''MOVE'' \<in> fst ` set (fst (channels ?seeded
      (env_action_spec ?seeded (create_environment ?seeded example_args))))"
    by (simp add: seeded_library_def example_spec_def)
  from seeded_run_returns [of example_args] have
    2: "\<exists>w. run ?seeded example_args 1000 = Some (Inr w)"
    by (simp add: example_args_def default_args_def)
  from move_channel_recorded [where lib = ?seeded and args = example_args and fuel = 1000] m
  have 3: "run ?seeded example_args 1000 \<noteq> Some (Inl (KeyError ''MOVE''))"
    by blast
  let ?fake = "fake_library 1000 example_spec"
  from fake_loop_body_kept obtain st' where
    b: "loop_body ?fake example_args 0 (fake_state 999) = Inr (True, st')" by blast
  have f: "step (agent (fake_state 999)) (timestep (fake_state 999)) =
      Inr ([''MOVE'' \<mapsto> IntVal 3, ''TURN'' \<mapsto> IntVal 0],
           example_agent\<lparr>self_scores := [0], self_random := 2000\<rparr>)"
    by (simp add: fake_state_def fake_step)
  from move_channel_recorded [where lib = ?fake and args = example_args and i = 0
      and st = "fake_state 999" and enough_data = True and st' = st', THEN conjunct1,
      rule_format, OF b]
  obtain action ag mv arc where
    "step (agent (fake_state 999)) (timestep (fake_state 999)) = Inr (action, ag)"
    "action ''MOVE'' = Some mv"
    "files st' = files (fake_state 999) @ [(rollout_file example_args 0, arc)]"
    "actions arc = a_rollout (fake_state 999) @ [mv, mv]"
    by auto
  with f have "files st' = files (fake_state 999) @ [(rollout_file example_args 0, arc)]"
    "actions arc = a_rollout (fake_state 999) @ [IntVal 3, IntVal 3]"
    by auto
  then have 4: "files st' = [(rollout_file example_args 0, arc)] \<and>
      actions arc = replicate 999 (IntVal 0) @ [IntVal 3, IntVal 3]"
    by (simp add: fake_state_def)
  from 1 2 3 4 b show ?thesis by blast
qed

section \<open>Replay from the agent seed\<close>














lemma truncate_fields:
  "env (world.truncate st) = env st" "files (world.truncate st) = files st"
  by (simp_all add: world.defs)




lemma run_Inr:
  "run lib args fuel = Some (Inr w) \<Longrightarrow>
   \<exists>w'. for_episodes lib args fuel (py_range (num_episodes args)) (initial_world lib args) =
     Some (Inr w') \<and> files w = files w' \<and> agent w = agent w'"
  by (auto simp: run_def split: option.splits sum.splits)




section \<open>Whole runs\<close>

text \<open>
  More fuel never changes a result: once the \<open>while\<close> loop, an episode or a run has
  returned within some number of passes, it returns the same with any larger number.
\<close>

lemma while_fuel_mono:
  "while_not_enough_data lib args i fuel st = Some res \<Longrightarrow>
   while_not_enough_data lib args i (fuel + extra) st = Some res"
proof (induction fuel arbitrary: st)
  case 0
  then show ?case by simp
next
  case (Suc fuel)
  then show ?case by (auto split: sum.splits prod.splits if_splits)
qed

lemma episode_fuel_mono:
  "episode lib args fuel i w = Some res \<Longrightarrow> episode lib args (fuel + extra) i w = Some res"
  by (auto simp: episode_def while_fuel_mono split: option.splits sum.splits)

lemma for_episodes_fuel_mono:
  "for_episodes lib args fuel is w = Some res \<Longrightarrow>
   for_episodes lib args (fuel + extra) is w = Some res"
proof (induction "is" arbitrary: w)
  case Nil
  then show ?case by simp
next
  case (Cons i rest)
  then show ?case
    by (auto simp: episode_fuel_mono split: option.splits sum.splits)
qed

lemma run_fuel_mono:
  "run lib args fuel = Some res \<Longrightarrow> run lib args (fuel + extra) = Some res"
  by (auto simp: run_def for_episodes_fuel_mono split: option.splits sum.splits)

text \<open>
  A run that returns has written one archive for each episode index, in order, each of
  the shape above.
\<close>

lemma begin_episode_aligned: "aligned (begin_episode lib w)"
  by (simp add: aligned_def begin_episode_def world.defs split: prod.splits)

lemma episode_archive:
  assumes "episode lib args fuel i w = Some (Inr w')"
  shows "\<exists>arc. files w' = files w @ [(rollout_file args i, arc)] \<and> archive_shape arc"
proof -
  from assms obtain st' where
    h: "while_not_enough_data lib args i fuel (begin_episode lib w) = Some (Inr st')"
    and t: "w' = world.truncate st'"
    by (auto simp: episode_def split: option.splits sum.splits)
  from while_kept_archive [OF begin_episode_aligned h] show ?thesis
    unfolding t by (auto simp: archive_shape_def truncate_fields begin_episode_fields)
qed

lemma for_episodes_archives:
  "for_episodes lib args fuel is w = Some (Inr w') \<Longrightarrow>
   \<exists>arcs. files w' = files w @ zip (map (rollout_file args) is) arcs \<and>
     length arcs = length is \<and> list_all archive_shape arcs"
proof (induction "is" arbitrary: w)
  case Nil
  then show ?case by simp
next
  case (Cons i rest)
  from Cons.prems obtain m where
    e: "episode lib args fuel i w = Some (Inr m)" and
    f: "for_episodes lib args fuel rest m = Some (Inr w')"
    by (auto split: option.splits sum.splits)
  from episode_archive [OF e] obtain arc where
    a: "files m = files w @ [(rollout_file args i, arc)]" "archive_shape arc" by blast
  from Cons.IH [OF f] obtain arcs where
    b: "files w' = files m @ zip (map (rollout_file args) rest) arcs"
       "length arcs = length rest" "list_all archive_shape arcs" by blast
  from a b have "files w' = files w @ zip (map (rollout_file args) (i # rest)) (arc # arcs) \<and>
     length (arc # arcs) = length (i # rest) \<and> list_all archive_shape (arc # arcs)"
    by simp
  then show ?case by blast
qed

lemma run_archives:
  assumes "run lib args fuel = Some (Inr w)"
  shows "\<exists>arcs. files w = zip (map (rollout_file args) (py_range (num_episodes args))) arcs \<and>
     length arcs = nat (num_episodes args) \<and> list_all archive_shape arcs"
proof -
  from run_Inr [OF assms] obtain w' where
    f: "for_episodes lib args fuel (py_range (num_episodes args)) (initial_world lib args) =
        Some (Inr w')" and e: "files w = files w'" by blast
  from for_episodes_archives [OF f] e show ?thesis
    by (auto simp: initial_world_fields py_range_def)
qed

end
